theory Spec2Isabelle
  imports Main "HOL-Library.Word" "HOL-Library.Sublist"
begin

section \<open>JavaScript values used by the caption ledger\<close>

text \<open>
  A JavaScript string is a sequence of UTF-16 code units; \<open>length\<close>, \<open>startsWith\<close> and
  \<open>endsWith\<close> all work on code units.  ASCII literals of the source are written with
  \<open>ascii\<close>; the full-width punctuation marks are given by their code units.
\<close>

type_synonym jsstring = "16 word list"

definition ascii :: "string \<Rightarrow> jsstring" where
  "ascii cs = map of_char cs"

text \<open>
  The values a field of a recognition result or event can hold: \<open>undefined\<close> (also what a
  missing field reads as), \<open>null\<close>, a boolean, a number, a primitive string, a \<open>String\<close>
  object and an array.  Numbers are the safe integers.  The code looks at a value only
  through its truthiness, \<open>typeof\<close>, its \<open>length\<close>, its \<open>startsWith\<close> and ToString: a plain
  object without a \<open>length\<close> is seen like a boolean that is true, and a function or another
  array-like object like an array.
\<close>

datatype jsval =
    JUndefined
  | JNull
  | JBool bool
  | JNum int
  | JStr jsstring
  | JStrObj jsstring
  | JArr "jsval list"

datatype jserror = TypeError | RangeError

datatype 'a outcome = Returns 'a | Throws jserror

text \<open>Truthiness, as tested by \<open>if (result.isFinal)\<close>; every object is truthy.\<close>

fun truthy :: "jsval \<Rightarrow> bool" where
  "truthy JUndefined = False"
| "truthy JNull = False"
| "truthy (JBool b) = b"
| "truthy (JNum n) = (n \<noteq> 0)"
| "truthy (JStr s) = (s \<noteq> [])"
| "truthy (JStrObj s) = True"
| "truthy (JArr xs) = True"

text \<open>The decimal digits of a natural number, and \<open>Array.prototype.join\<close> on strings.\<close>

fun digits :: "nat \<Rightarrow> jsstring" where
  "digits n =
     (if n < 10 then [0x30 + of_nat n] else digits (n div 10) @ [0x30 + of_nat (n mod 10)])"

declare digits.simps [simp del]

fun joinWith :: "jsstring \<Rightarrow> jsstring list \<Rightarrow> jsstring" where
  "joinWith sep [] = []"
| "joinWith sep [x] = x"
| "joinWith sep (x # y # ys) = x @ sep @ joinWith sep (y # ys)"

text \<open>
  ToString, as applied to the receiver and the argument of \<open>startsWith\<close> and by \<open>+=\<close> on a
  string.  An array is joined with commas, \<open>null\<close> and \<open>undefined\<close> elements giving the
  empty string.
\<close>

fun toString :: "jsval \<Rightarrow> jsstring" where
  "toString JUndefined = ascii ''undefined''"
| "toString JNull = ascii ''null''"
| "toString (JBool b) = (if b then ascii ''true'' else ascii ''false'')"
| "toString (JNum n) = (if n < 0 then ascii ''-'' @ digits (nat (- n)) else digits (nat n))"
| "toString (JStr s) = s"
| "toString (JStrObj s) = s"
| "toString (JArr xs) =
     joinWith (ascii '','')
       (map (\<lambda>x. if x = JNull \<or> x = JUndefined then [] else toString x) xs)"

text \<open>
  The property \<open>length\<close> of a value other than \<open>null\<close> and \<open>undefined\<close>; \<open>None\<close> stands
  for \<open>undefined\<close>, which is what a boolean or a number gives.
\<close>

fun lengthProperty :: "jsval \<Rightarrow> nat option" where
  "lengthProperty (JStr s) = Some (length s)"
| "lengthProperty (JStrObj s) = Some (length s)"
| "lengthProperty (JArr xs) = Some (length xs)"
| "lengthProperty _ = None"

text \<open>Whether the value has the method \<open>startsWith\<close>: strings and \<open>String\<close> objects do.\<close>

fun hasStartsWith :: "jsval \<Rightarrow> bool" where
  "hasStartsWith (JStr s) = True"
| "hasStartsWith (JStrObj s) = True"
| "hasStartsWith _ = False"

definition startsWith :: "jsstring \<Rightarrow> jsstring \<Rightarrow> bool" where
  "startsWith text search = prefix search text"

definition endsWith :: "jsstring \<Rightarrow> jsstring \<Rightarrow> bool" where
  "endsWith text search = suffix search text"

section \<open>Recognition results and events\<close>

record alternative =
  transcript :: jsval

text \<open>
  A \<open>SpeechRecognitionResult\<close>: the flag \<open>isFinal\<close> and the indexed alternatives;
  \<open>result[0]\<close> is \<open>undefined\<close> when the list is empty.
\<close>

record result =
  isFinal :: jsval
  alternatives :: "alternative list"

record event =
  resultIndex :: int
  results :: "result list"

text \<open>The expression \<open>r[0].transcript\<close>: a property read on \<open>undefined\<close> throws.\<close>

definition topTranscript :: "result \<Rightarrow> jsval outcome" where
  "topTranscript r =
     (case alternatives r of [] \<Rightarrow> Throws TypeError | a # _ \<Rightarrow> Returns (transcript a))"

text \<open>The expression \<open>array[ix]\<close> for an integer \<open>ix\<close>: \<open>None\<close> stands for \<open>undefined\<close>.\<close>

definition at_index :: "'a list \<Rightarrow> int \<Rightarrow> 'a option" where
  "at_index xs ix = (if 0 \<le> ix \<and> ix < int (length xs) then Some (xs ! nat ix) else None)"

text \<open>
  The test \<open>transcript != null && transcript.length > 0\<close>: \<open>!= null\<close> excludes \<open>null\<close>
  and \<open>undefined\<close>, and \<open>undefined > 0\<close> is false.  Any other value with a positive
  \<open>length\<close> passes, a string or not.
\<close>

definition isNonEmptyTranscript :: "jsval \<Rightarrow> bool" where
  "isNonEmptyTranscript v =
     (v \<noteq> JNull \<and> v \<noteq> JUndefined \<and>
      (case lengthProperty v of None \<Rightarrow> False | Some n \<Rightarrow> 0 < n))"

section \<open>The class SpeechLog\<close>

text \<open>
  The fields of the class.  The callback \<open>onLog\<close> is not a field of the model: every
  function that calls it returns the messages it passed, in order.
\<close>

record SpeechLog =
  maxCharacters :: int
  wholeLog :: "result list"
  currentResults :: "result list"
  interimResults :: "result list"
  indexFinished :: int

datatype logmsg =
    WarnIndex int int
  | NewItems nat int
  | WholeLogCount nat

definition newSpeechLog :: SpeechLog where
  "newSpeechLog =
     \<lparr> maxCharacters = 300, wholeLog = [], currentResults = [],
       interimResults = [], indexFinished = - 1 \<rparr>"

text \<open>
  The call \<open>xs.push(...ys)\<close> passes every element of \<open>ys\<close> as an argument.  An engine
  accepts only so many arguments in one call and throws a RangeError beyond, before \<open>push\<close>
  runs.  That bound differs between engines; it is the parameter \<open>argLimit\<close> of the model.
\<close>

definition pushSpread :: "nat \<Rightarrow> 'a list \<Rightarrow> 'a list \<Rightarrow> 'a list outcome" where
  "pushSpread argLimit xs ys =
     (if argLimit < length ys then Throws RangeError else Returns (xs @ ys))"

text \<open>\<open>init\<close>.  When the push throws, none of the assignments after it is reached.\<close>

definition init :: "nat \<Rightarrow> SpeechLog \<Rightarrow> unit outcome \<times> SpeechLog" where
  "init argLimit s =
     (case (if 0 < length (currentResults s)
            then pushSpread argLimit (wholeLog s) (currentResults s)
            else Returns (wholeLog s)) of
        Throws e \<Rightarrow> (Throws e, s)
      | Returns w \<Rightarrow>
          (Returns (),
           s\<lparr> wholeLog := w, currentResults := [], interimResults := [],
              indexFinished := - 1 \<rparr>))"

definition getLastItem :: "'a list \<Rightarrow> 'a option" where
  "getLastItem array = (if length array < 1 then None else Some (last array))"

text \<open>
  \<open>_pushUpdate\<close>.  When \<open>last\<close> is \<open>null\<close> the call of \<open>startsWith\<close> is not evaluated.
  Otherwise \<open>result[0].transcript.startsWith(last[0].transcript)\<close> throws when either
  result has no alternative or when the new transcript has no method \<open>startsWith\<close> (no such
  property on \<open>null\<close> and \<open>undefined\<close>, not a function on a boolean, a number or an array);
  receiver and argument are converted with ToString.  Nothing is mutated before the throw.
\<close>

definition pushUpdate :: "SpeechLog \<Rightarrow> result \<Rightarrow> unit outcome \<times> SpeechLog" where
  "pushUpdate s r =
     (if truthy (isFinal r) then
        (case getLastItem (currentResults s) of
           None \<Rightarrow> (Returns (), s\<lparr> currentResults := currentResults s @ [r] \<rparr>)
         | Some lst \<Rightarrow>
             (case topTranscript r of
                Throws e \<Rightarrow> (Throws e, s)
              | Returns t \<Rightarrow>
                  if \<not> hasStartsWith t then (Throws TypeError, s)
                  else
                    (case topTranscript lst of
                       Throws e \<Rightarrow> (Throws e, s)
                     | Returns p \<Rightarrow>
                         (let s1 = (if startsWith (toString t) (toString p)
                                    then s\<lparr> currentResults := butlast (currentResults s) \<rparr>
                                    else s)
                          in (Returns (), s1\<lparr> currentResults := currentResults s1 @ [r] \<rparr>)))))
      else (Returns (), s\<lparr> interimResults := interimResults s @ [r] \<rparr>))"

text \<open>\<open>results.forEach(r => this._pushUpdate(r))\<close>: a throw ends the iteration.\<close>

fun pushAll :: "result list \<Rightarrow> SpeechLog \<Rightarrow> unit outcome \<times> SpeechLog" where
  "pushAll [] s = (Returns (), s)"
| "pushAll (r # rs) s =
     (case pushUpdate s r of
        (Throws e, s1) \<Rightarrow> (Throws e, s1)
      | (Returns u, s1) \<Rightarrow> pushAll rs s1)"

text \<open>
  The loop of \<open>_extractUpdate\<close>, from index \<open>ix\<close> with the items collected so far.
  \<open>result.results[ix]\<close> is \<open>undefined\<close> for a negative \<open>ix\<close>, and reading \<open>isFinal\<close>
  from it throws; \<open>indexFinished\<close> is raised before the transcript is read.
\<close>

function extractLoop ::
  "event \<Rightarrow> int \<Rightarrow> result list \<Rightarrow> SpeechLog \<Rightarrow> result list outcome \<times> SpeechLog" where
  "extractLoop ev ix updatedItems s =
     (if ix < int (length (results ev)) then
        (case at_index (results ev) ix of
           None \<Rightarrow> (Throws TypeError, s)
         | Some r \<Rightarrow>
             (let s1 = (if isFinal r = JBool True
                        then s\<lparr> indexFinished := max ix (indexFinished s) \<rparr> else s)
              in case topTranscript r of
                   Throws e \<Rightarrow> (Throws e, s1)
                 | Returns t \<Rightarrow>
                     if isNonEmptyTranscript t
                     then extractLoop ev (ix + 1) (updatedItems @ [r]) s1
                     else extractLoop ev (ix + 1) updatedItems s1))
      else (Returns updatedItems, s))"
  by pat_completeness auto
termination
  by (relation "measure (\<lambda>(ev, ix, items, s). nat (int (length (results ev)) - ix))") auto

declare extractLoop.simps [simp del]

definition extractUpdate ::
  "SpeechLog \<Rightarrow> event \<Rightarrow> result list outcome \<times> SpeechLog \<times> logmsg list" where
  "extractUpdate s ev =
     (let ixBegin = max (indexFinished s) (resultIndex ev)
      in case extractLoop ev ixBegin [] s of
           (Throws e, s1) \<Rightarrow> (Throws e, s1, [])
         | (Returns updatedItems, s1) \<Rightarrow>
             (Returns updatedItems, s1,
              if 0 < length updatedItems
              then [NewItems (length updatedItems) (resultIndex ev)] else []))"

definition update :: "SpeechLog \<Rightarrow> event \<Rightarrow> bool outcome \<times> SpeechLog \<times> logmsg list" where
  "update s ev =
     (let warn = (if indexFinished s \<ge> resultIndex ev
                  then [WarnIndex (resultIndex ev) (indexFinished s)] else [])
      in case extractUpdate s ev of
           (Throws e, s1, msgs) \<Rightarrow> (Throws e, s1, warn @ msgs)
         | (Returns rs, s1, msgs) \<Rightarrow>
             if length rs < 1 then (Returns False, s1, warn @ msgs)
             else (case pushAll rs (s1\<lparr> interimResults := [] \<rparr>) of
                     (Throws e, s2) \<Rightarrow> (Throws e, s2, warn @ msgs)
                   | (Returns u, s2) \<Rightarrow> (Returns True, s2, warn @ msgs)))"

subsection \<open>Trimming\<close>

text \<open>
  A JavaScript number as far as \<open>_trimCurrentResults\<close> needs it: the running sum is an
  integer until a transcript without a \<open>length\<close> is added, which makes it \<open>NaN\<close>.
\<close>

datatype jsnum = NaN | Num int

fun jsAdd :: "jsnum \<Rightarrow> jsnum \<Rightarrow> jsnum" where
  "jsAdd (Num a) (Num b) = Num (a + b)"
| "jsAdd _ _ = NaN"

fun jsGreater :: "jsnum \<Rightarrow> int \<Rightarrow> bool" where
  "jsGreater (Num a) m = (m < a)"
| "jsGreater NaN m = False"

text \<open>\<open>transcript.length\<close> as an addend: the read throws on \<open>null\<close> and \<open>undefined\<close>, and
  \<open>undefined\<close> makes the sum \<open>NaN\<close>.\<close>

definition lengthOf :: "jsval \<Rightarrow> jsnum outcome" where
  "lengthOf v =
     (if v = JNull \<or> v = JUndefined then Throws TypeError
      else (case lengthProperty v of None \<Rightarrow> Returns NaN | Some n \<Rightarrow> Returns (Num (int n))))"

text \<open>
  The loop of \<open>_trimCurrentResults\<close>; the first argument is \<open>ix + 1\<close>, so that \<open>0\<close> is
  the exit \<open>ix < 0\<close>.  On the first excess the entries \<open>0..ix\<close> are shifted out and the
  loop is left.
\<close>

fun trimLoop :: "nat \<Rightarrow> jsnum \<Rightarrow> SpeechLog \<Rightarrow> unit outcome \<times> SpeechLog" where
  "trimLoop 0 acc s = (Returns (), s)"
| "trimLoop (Suc ix) acc s =
     (case at_index (currentResults s) (int ix) of
        None \<Rightarrow> (Throws TypeError, s)
      | Some r \<Rightarrow>
          (case topTranscript r of
             Throws e \<Rightarrow> (Throws e, s)
           | Returns t \<Rightarrow>
               (case lengthOf t of
                  Throws e \<Rightarrow> (Throws e, s)
                | Returns n \<Rightarrow>
                    if jsGreater (jsAdd acc n) (maxCharacters s)
                    then (Returns (), s\<lparr> currentResults := drop (Suc ix) (currentResults s) \<rparr>)
                    else trimLoop ix (jsAdd acc n) s)))"

definition trimCurrentResults :: "SpeechLog \<Rightarrow> unit outcome \<times> SpeechLog" where
  "trimCurrentResults s = trimLoop (length (currentResults s)) (Num 0) s"

subsection \<open>Queries\<close>

text \<open>\<open>isString\<close>: \<open>typeof value === 'string'\<close>, which a \<open>String\<close> object fails.\<close>

fun isString :: "jsval \<Rightarrow> bool" where
  "isString (JStr s) = True"
| "isString _ = False"

text \<open>
  \<open>_addPunctuationIfNotExists\<close>.  The marks are tested in the order of the source: the
  ideographic full stop and comma, the full-width question and exclamation marks, then the
  ASCII full stop, comma, question mark and exclamation mark.
\<close>

definition addPunctuationIfNotExists :: "jsval \<Rightarrow> jsstring" where
  "addPunctuationIfNotExists v =
     (if isString v \<noteq> True then []
      else (case v of
              JStr text \<Rightarrow>
                if length text < 1 then []
                else if endsWith text [0x3002] \<or> endsWith text [0x3001]
                     \<or> endsWith text [0xFF1F] \<or> endsWith text [0xFF01]
                     \<or> endsWith text (ascii ''.'') \<or> endsWith text (ascii '','')
                     \<or> endsWith text (ascii ''?'') \<or> endsWith text (ascii ''!'')
                then text
                else text @ [0x3002]
            | _ \<Rightarrow> []))"

fun speechOfCurrent :: "result list \<Rightarrow> jsstring \<Rightarrow> jsstring outcome" where
  "speechOfCurrent [] text = Returns text"
| "speechOfCurrent (r # rs) text =
     (case topTranscript r of
        Throws e \<Rightarrow> Throws e
      | Returns newText \<Rightarrow> speechOfCurrent rs (text @ addPunctuationIfNotExists newText))"

fun speechOfInterim :: "result list \<Rightarrow> jsstring \<Rightarrow> jsstring outcome" where
  "speechOfInterim [] text = Returns text"
| "speechOfInterim (r # rs) text =
     (case topTranscript r of
        Throws e \<Rightarrow> Throws e
      | Returns newText \<Rightarrow> speechOfInterim rs (text @ toString newText))"

definition getCurrentSpeech :: "SpeechLog \<Rightarrow> jsstring outcome \<times> SpeechLog" where
  "getCurrentSpeech s =
     (case speechOfCurrent (currentResults s) [] of
        Throws e \<Rightarrow> (Throws e, s)
      | Returns text \<Rightarrow> (speechOfInterim (interimResults s) text, s))"

text \<open>One \<open>forEach\<close> of \<open>getWholeLog\<close>: each entry pushes its normalized transcript
  followed by a line feed.\<close>

fun logLines :: "result list \<Rightarrow> jsstring list \<Rightarrow> jsstring list outcome" where
  "logLines [] lg = Returns lg"
| "logLines (r # rs) lg =
     (case topTranscript r of
        Throws e \<Rightarrow> Throws e
      | Returns newText \<Rightarrow> logLines rs (lg @ [addPunctuationIfNotExists newText @ [0x0A]]))"

definition getWholeLog :: "SpeechLog \<Rightarrow> jsstring list outcome \<times> SpeechLog \<times> logmsg list" where
  "getWholeLog s =
     (let msgs = [WholeLogCount (length (wholeLog s))]
      in case logLines (wholeLog s) [] of
           Throws e \<Rightarrow> (Throws e, s, msgs)
         | Returns l1 \<Rightarrow>
             (case logLines (currentResults s) l1 of
                Throws e \<Rightarrow> (Throws e, s, msgs)
              | Returns l2 \<Rightarrow> (logLines (interimResults s) l2, s, msgs)))"

section \<open>The class SpeechRecognizer\<close>

text \<open>
  The field \<open>recognizer\<close> is \<open>undefined\<close> before \<open>init\<close>, then either the browser's
  recognition object or \<open>null\<close>.  The calls the class makes to its owner and to the
  recognition object are returned as a list of effects, in order; the free-text \<open>onLog\<close>
  calls of this class are left out.  \<open>recognizer.start()\<close> is taken to return normally.
\<close>

datatype recognizerRef = RUndefined | RNull | RObject

datatype effect =
    Critical jsstring jsstring
  | Updated jsstring
  | RecognizerStart

record SpeechRecognizer =
  recognizer :: recognizerRef
  isSpeechAvailable :: bool
  available :: bool
  speechLog :: SpeechLog

definition newSpeechRecognizer :: "SpeechLog \<Rightarrow> SpeechRecognizer" where
  "newSpeechRecognizer lg =
     \<lparr> recognizer = RUndefined, isSpeechAvailable = False, available = True, speechLog = lg \<rparr>"

text \<open>\<open>init()\<close>; the argument says whether \<open>window\<close> has \<open>SpeechRecognition\<close> or
  \<open>webkitSpeechRecognition\<close>.\<close>

definition SpeechRecognizer_init ::
  "bool \<Rightarrow> SpeechRecognizer \<Rightarrow> bool \<times> SpeechRecognizer \<times> effect list" where
  "SpeechRecognizer_init found a =
     (if recognizer a \<noteq> RUndefined then (available a, a, [])
      else if found then (True, a\<lparr> recognizer := RObject, available := True \<rparr>, [])
      else (False, a\<lparr> recognizer := RNull, available := False \<rparr>, []))"

text \<open>
  \<open>start()\<close>; \<open>this.recognizer == null\<close> holds for \<open>null\<close> and for \<open>undefined\<close>.  An
  exception of \<open>speechLog.init()\<close> leaves \<open>start\<close> before \<open>recognizer.start()\<close>.
\<close>

definition SpeechRecognizer_start ::
  "nat \<Rightarrow> SpeechRecognizer \<Rightarrow> bool outcome \<times> SpeechRecognizer \<times> effect list" where
  "SpeechRecognizer_start argLimit a =
     (if available a \<noteq> True \<or> recognizer a = RNull \<or> recognizer a = RUndefined
      then (Returns False, a, [])
      else (case init argLimit (speechLog a) of
              (Throws e, lg) \<Rightarrow> (Throws e, a\<lparr> speechLog := lg \<rparr>, [])
            | (Returns u, lg) \<Rightarrow> (Returns True, a\<lparr> speechLog := lg \<rparr>, [RecognizerStart])))"

text \<open>
  The handlers return the recognizer they leave behind and the effects they had.  An
  exception ends the handler where it is thrown; what was written before it stays.
\<close>

definition onspeechstart :: "SpeechRecognizer \<Rightarrow> SpeechRecognizer \<times> effect list" where
  "onspeechstart a = (a\<lparr> isSpeechAvailable := True \<rparr>, [])"

definition onend :: "nat \<Rightarrow> SpeechRecognizer \<Rightarrow> SpeechRecognizer \<times> effect list" where
  "onend argLimit a =
     (case init argLimit (speechLog a) of
        (Throws e, lg) \<Rightarrow> (a\<lparr> speechLog := lg \<rparr>, [])
      | (Returns u, lg) \<Rightarrow>
          (let a1 = a\<lparr> speechLog := lg \<rparr>
           in if available a1 then snd (SpeechRecognizer_start argLimit a1) else (a1, [])))"

text \<open>\<open>onerror\<close>, on an event with the fields \<open>error\<close> and \<open>message\<close>.\<close>

definition onerror ::
  "jsstring \<Rightarrow> jsstring \<Rightarrow> SpeechRecognizer \<Rightarrow> SpeechRecognizer \<times> effect list" where
  "onerror err msg a =
     (if isSpeechAvailable a \<noteq> True \<and> err \<noteq> ascii ''no-speech'' \<and> err \<noteq> ascii ''aborted''
      then (a\<lparr> available := False \<rparr>, [Critical err msg])
      else (a, []))"

definition onresult :: "event \<Rightarrow> SpeechRecognizer \<Rightarrow> SpeechRecognizer \<times> effect list" where
  "onresult ev a =
     (case update (speechLog a) ev of
        (Returns True, lg, msgs) \<Rightarrow>
          (case getCurrentSpeech lg of
             (Returns caption, lg1) \<Rightarrow> (a\<lparr> speechLog := lg1 \<rparr>, [Updated caption])
           | (Throws e, lg1) \<Rightarrow> (a\<lparr> speechLog := lg1 \<rparr>, []))
      | (_, lg, msgs) \<Rightarrow> (a\<lparr> speechLog := lg \<rparr>, []))"

text \<open>
  What can happen to a recognizer: its owner calls \<open>init\<close> or \<open>start\<close>, or the recognition
  object fires one of the handlers that \<open>init\<close> assigned.  A handler exists only once the
  object does; the handlers not listed only log.
\<close>

datatype action =
    CallInit bool
  | CallStart
  | SpeechStart
  | SessionEnd
  | ErrorEvent jsstring jsstring
  | ResultEvent event
  | OtherEvent

fun handle :: "nat \<Rightarrow> action \<Rightarrow> SpeechRecognizer \<Rightarrow> SpeechRecognizer \<times> effect list" where
  "handle argLimit SpeechStart a = onspeechstart a"
| "handle argLimit SessionEnd a = onend argLimit a"
| "handle argLimit (ErrorEvent err msg) a = onerror err msg a"
| "handle argLimit (ResultEvent ev) a = onresult ev a"
| "handle argLimit _ a = (a, [])"

fun step :: "nat \<Rightarrow> action \<Rightarrow> SpeechRecognizer \<Rightarrow> SpeechRecognizer \<times> effect list" where
  "step argLimit (CallInit found) a = snd (SpeechRecognizer_init found a)"
| "step argLimit CallStart a = snd (SpeechRecognizer_start argLimit a)"
| "step argLimit act a = (if recognizer a = RObject then handle argLimit act a else (a, []))"

fun run :: "nat \<Rightarrow> action list \<Rightarrow> SpeechRecognizer \<Rightarrow> SpeechRecognizer \<times> effect list" where
  "run argLimit [] a = (a, [])"
| "run argLimit (act # acts) a =
     (case step argLimit act a of
        (a1, es1) \<Rightarrow> (case run argLimit acts a1 of (a2, es2) \<Rightarrow> (a2, es1 @ es2)))"

fun isCritical :: "effect \<Rightarrow> bool" where
  "isCritical (Critical err msg) = True"
| "isCritical _ = False"

section \<open>Well-formed entries and call sequences\<close>

text \<open>
  \<open>hasTop r\<close>: the result has an alternative 0.  \<open>hasContent r\<close>: its top transcript is a
  string, a \<open>String\<close> object or an array, and not empty.  \<open>hasStringTop r\<close>: its top
  transcript has the method \<open>startsWith\<close>.  \<open>safeTop r\<close>: it has an alternative 0 whose
  transcript either fails the length test of the extraction or has the method
  \<open>startsWith\<close>.
\<close>

definition hasTop :: "result \<Rightarrow> bool" where
  "hasTop r = (case topTranscript r of Returns t \<Rightarrow> True | Throws e \<Rightarrow> False)"

definition hasContent :: "result \<Rightarrow> bool" where
  "hasContent r =
     (case topTranscript r of
        Returns (JStr t) \<Rightarrow> t \<noteq> []
      | Returns (JStrObj t) \<Rightarrow> t \<noteq> []
      | Returns (JArr xs) \<Rightarrow> xs \<noteq> []
      | _ \<Rightarrow> False)"

definition hasStringTop :: "result \<Rightarrow> bool" where
  "hasStringTop r = (case topTranscript r of Returns t \<Rightarrow> hasStartsWith t | Throws e \<Rightarrow> False)"


text \<open>A sequence of calls on one ledger.  The state after a call is the one the call
  leaves behind, whether it returned or threw.\<close>

datatype ledgerCall = Init | Update event

fun runLedger :: "nat \<Rightarrow> ledgerCall list \<Rightarrow> SpeechLog \<Rightarrow> SpeechLog" where
  "runLedger argLimit [] s = s"
| "runLedger argLimit (Init # cs) s = runLedger argLimit cs (snd (init argLimit s))"
| "runLedger argLimit (Update ev # cs) s = runLedger argLimit cs (fst (snd (update s ev)))"

section \<open>Example inputs and the specification's wording\<close>

text \<open>Results as a recognizer sends them, and the inputs used as examples below.\<close>

definition finalResult :: "jsstring \<Rightarrow> result" where
  "finalResult t = \<lparr> isFinal = JBool True, alternatives = [\<lparr> transcript = JStr t \<rparr>] \<rparr>"

definition interimResult :: "jsstring \<Rightarrow> result" where
  "interimResult t = \<lparr> isFinal = JBool False, alternatives = [\<lparr> transcript = JStr t \<rparr>] \<rparr>"

definition emptyFinalEvent :: event where
  "emptyFinalEvent = \<lparr> resultIndex = 0, results = [finalResult []] \<rparr>"

definition spuriousEvent :: event where
  "spuriousEvent = \<lparr> resultIndex = 0, results = [finalResult [], finalResult (ascii ''ok'')] \<rparr>"

text \<open>
  The normalization as the specification words it, to compare with
  \<open>addPunctuationIfNotExists\<close>: a non-empty transcript that does not end in one of the
  eight marks gets an ideographic full stop appended; anything else is returned unchanged.
  \<open>lineOfSpec\<close> is the exported line of one entry: the normalized transcript (empty for a
  transcript that is not a string) followed by a line feed.
\<close>

definition normalizedSpec :: "jsstring \<Rightarrow> jsstring" where
  "normalizedSpec t =
     (if t \<noteq> [] \<and> last t \<notin> set [0x3002, 0x3001, 0xFF1F, 0xFF01, 0x2E, 0x2C, 0x3F, 0x21]
      then t @ [0x3002] else t)"

definition lineOfSpec :: "result \<Rightarrow> jsstring" where
  "lineOfSpec r =
     (case topTranscript r of
        Returns (JStr t) \<Rightarrow> normalizedSpec t @ [0x0A]
      | _ \<Rightarrow> [0x0A])"

definition exportLedger :: SpeechLog where
  "exportLedger =
     \<lparr> maxCharacters = 300, wholeLog = [finalResult (ascii ''A'')],
       currentResults = [finalResult (ascii ''B'')],
       interimResults = [interimResult (ascii ''C'')], indexFinished = 0 \<rparr>"

text \<open>
  The treatment of final results as the specification words it, to compare with what
  \<open>update\<close> leaves in \<open>currentResults\<close>: if the transcript of the last entry is a prefix of
  the new transcript, the new result replaces the last entry, otherwise it is appended.
\<close>

definition entryText :: "result \<Rightarrow> jsstring" where
  "entryText r = (case topTranscript r of Returns t \<Rightarrow> toString t | Throws e \<Rightarrow> [])"

definition dedupPushSpec :: "result list \<Rightarrow> result \<Rightarrow> result list" where
  "dedupPushSpec window r =
     (if window \<noteq> [] \<and> prefix (entryText (last window)) (entryText r)
      then butlast window @ [r] else window @ [r])"

definition isFinalResult :: "result \<Rightarrow> bool" where
  "isFinalResult r = truthy (isFinal r)"

text \<open>The kana of the specification's example: \<open>konnichi\<close> and \<open>konnichiwa\<close>.\<close>

definition konnichi :: jsstring where
  "konnichi = [0x3053, 0x3093, 0x306B, 0x3061]"

definition konnichiwa :: jsstring where
  "konnichiwa = [0x3053, 0x3093, 0x306B, 0x3061, 0x306F]"

definition dedupLedger :: SpeechLog where
  "dedupLedger = newSpeechLog\<lparr> currentResults := [finalResult konnichi], indexFinished := 0 \<rparr>"

definition dedupEvent :: event where
  "dedupEvent = \<lparr> resultIndex = 0, results = [finalResult konnichiwa] \<rparr>"

definition appendEvent :: event where
  "appendEvent = \<lparr> resultIndex = 1,
     results = [finalResult konnichi, finalResult (ascii ''abc''), interimResult (ascii ''de'')] \<rparr>"





definition resentEvent :: event where
  "resentEvent = \<lparr> resultIndex = 0, results = [finalResult (ascii ''ab''), interimResult (ascii ''c'')] \<rparr>"

definition resentLedger :: SpeechLog where
  "resentLedger = newSpeechLog\<lparr> currentResults := [finalResult (ascii ''a'')], indexFinished := 0 \<rparr>"


text \<open>The sum of the transcript lengths of a list of entries, and the scenario of the
  specification: a budget of ten characters and three final results of five.\<close>

definition transcriptLength :: "result \<Rightarrow> int" where
  "transcriptLength r =
     (case topTranscript r of
        Returns t \<Rightarrow> (case lengthProperty t of Some n \<Rightarrow> int n | None \<Rightarrow> 0)
      | Throws e \<Rightarrow> 0)"

definition totalLength :: "result list \<Rightarrow> int" where
  "totalLength rs = sum_list (map transcriptLength rs)"

definition trimLedger :: SpeechLog where
  "trimLedger = newSpeechLog\<lparr> maxCharacters := 10 \<rparr>"

definition trimEvent1 :: event where
  "trimEvent1 = \<lparr> resultIndex = 0, results = [finalResult (ascii ''abcde'')] \<rparr>"

definition trimEvent2 :: event where
  "trimEvent2 = \<lparr> resultIndex = 1,
     results = [finalResult (ascii ''abcde''), finalResult (ascii ''fghij'')] \<rparr>"

definition trimEvent3 :: event where
  "trimEvent3 = \<lparr> resultIndex = 2,
     results = [finalResult (ascii ''abcde''), finalResult (ascii ''fghij''),
                finalResult (ascii ''klmno'')] \<rparr>"

text \<open>Two final results of two hundred characters each, for a ledger with the default budget
  of three hundred.\<close>

definition longEvent1 :: event where
  "longEvent1 = \<lparr> resultIndex = 0, results = [finalResult (replicate 200 0x61)] \<rparr>"

definition longEvent2 :: event where
  "longEvent2 = \<lparr> resultIndex = 1,
     results = [finalResult (replicate 200 0x61), finalResult (replicate 200 0x62)] \<rparr>"

text \<open>A recognizer as constructed, one that \<open>init\<close> and \<open>start\<close> have set listening, and the
  error event of the specification's scenario.\<close>

definition freshRecognizer :: SpeechRecognizer where
  "freshRecognizer = newSpeechRecognizer newSpeechLog"

definition listeningRecognizer :: SpeechRecognizer where
  "listeningRecognizer = freshRecognizer\<lparr> recognizer := RObject \<rparr>"

definition networkError :: action where
  "networkError = ErrorEvent (ascii ''network'') (ascii ''offline'')"

text \<open>
  The \<open>onCritical\<close> calls the source makes along a sequence of calls and events on a
  recognizer that has its recognition object: one for each error event that arrives while
  no \<open>speechstart\<close> has been seen and whose code is neither \<open>no-speech\<close> nor \<open>aborted\<close>, and
  no other.  The first argument says whether a \<open>speechstart\<close> has been seen.
\<close>

fun criticalCalls :: "bool \<Rightarrow> action list \<Rightarrow> effect list" where
  "criticalCalls seen [] = []"
| "criticalCalls seen (SpeechStart # acts) = criticalCalls True acts"
| "criticalCalls seen (ErrorEvent err msg # acts) =
     (if \<not> seen \<and> err \<noteq> ascii ''no-speech'' \<and> err \<noteq> ascii ''aborted''
      then Critical err msg # criticalCalls seen acts
      else criticalCalls seen acts)"
| "criticalCalls seen (act # acts) = criticalCalls seen acts"

section \<open>Properties of the extraction loop\<close>

lemma extractLoop_frame:
  "\<exists>k. indexFinished s \<le> k \<and> snd (extractLoop ev ix items s) = s\<lparr> indexFinished := k \<rparr>"
proof (induction ev ix items s rule: extractLoop.induct)
  case (1 ev ix items s)
  show ?case
  proof (cases "ix < int (length (results ev))")
    case False
    then have "snd (extractLoop ev ix items s) = s\<lparr> indexFinished := indexFinished s \<rparr>"
      by (simp add: extractLoop.simps)
    then show ?thesis by blast
  next
    case inrange: True
    show ?thesis
    proof (cases "at_index (results ev) ix")
      case None
      with inrange have "snd (extractLoop ev ix items s) = s\<lparr> indexFinished := indexFinished s \<rparr>"
        by (simp add: extractLoop.simps)
      then show ?thesis by blast
    next
      case (Some r)
      define s1 where "s1 = (if isFinal r = JBool True
                        then s\<lparr> indexFinished := max ix (indexFinished s) \<rparr> else s)"
      have s1: "indexFinished s \<le> indexFinished s1" "s1 = s\<lparr> indexFinished := indexFinished s1 \<rparr>"
        by (simp_all add: s1_def)
      show ?thesis
      proof (cases "topTranscript r")
        case (Throws e)
        with inrange Some have "snd (extractLoop ev ix items s) = s1"
          by (simp add: extractLoop.simps[of ev ix items s] s1_def)
        with s1 show ?thesis by metis
      next
        case (Returns t)
        show ?thesis
        proof (cases "isNonEmptyTranscript t")
          case True
          from "1.IH"(1)[OF inrange Some s1_def Returns True]
          obtain k where k: "indexFinished s1 \<le> k"
            "snd (extractLoop ev (ix + 1) (items @ [r]) s1) = s1\<lparr> indexFinished := k \<rparr>" by blast
          from inrange Some Returns True
          have "extractLoop ev ix items s = extractLoop ev (ix + 1) (items @ [r]) s1"
            by (simp add: extractLoop.simps[of ev ix items s] s1_def)
          with k s1 have "indexFinished s \<le> k \<and> snd (extractLoop ev ix items s) = s\<lparr> indexFinished := k \<rparr>"
            by (metis order_trans SpeechLog.update_convs(5) SpeechLog.surjective SpeechLog.select_convs)
          then show ?thesis by blast
        next
          case False
          from "1.IH"(2)[OF inrange Some s1_def Returns False]
          obtain k where k: "indexFinished s1 \<le> k"
            "snd (extractLoop ev (ix + 1) items s1) = s1\<lparr> indexFinished := k \<rparr>" by blast
          from inrange Some Returns False
          have "extractLoop ev ix items s = extractLoop ev (ix + 1) items s1"
            by (simp add: extractLoop.simps[of ev ix items s] s1_def)
          with k s1 have "indexFinished s \<le> k \<and> snd (extractLoop ev ix items s) = s\<lparr> indexFinished := k \<rparr>"
            by (metis order_trans SpeechLog.update_convs(5) SpeechLog.surjective SpeechLog.select_convs)
          then show ?thesis by blast
        qed
      qed
    qed
  qed
qed


lemma hasContent_iff:
  "hasContent r \<longleftrightarrow> (\<exists>t. topTranscript r = Returns t \<and> isNonEmptyTranscript t)"
proof (cases "topTranscript r")
  case (Throws e)
  then show ?thesis by (simp add: hasContent_def)
next
  case (Returns t)
  then show ?thesis by (cases t) (simp_all add: hasContent_def isNonEmptyTranscript_def)
qed

lemma hasContent_hasTop: "hasContent r \<Longrightarrow> hasTop r"
  by (auto simp: hasContent_iff hasTop_def)

lemma extractLoop_items:
  "fst (extractLoop ev ix items s) = Returns rs \<Longrightarrow> list_all hasContent items \<Longrightarrow> list_all hasContent rs"
proof (induction ev ix items s arbitrary: rs rule: extractLoop.induct)
  case (1 ev ix items s)
  show ?case
  proof (cases "ix < int (length (results ev))")
    case False
    with "1.prems" show ?thesis by (simp add: extractLoop.simps)
  next
    case inrange: True
    then obtain r where r: "at_index (results ev) ix = Some r"
      using "1.prems"(1) by (cases "at_index (results ev) ix") (auto simp: extractLoop.simps[of ev ix items s])
    define s1 where "s1 = (if isFinal r = JBool True
                        then s\<lparr> indexFinished := max ix (indexFinished s) \<rparr> else s)"
    from inrange r "1.prems"(1) obtain t where t: "topTranscript r = Returns t"
      by (cases "topTranscript r") (auto simp: extractLoop.simps[of ev ix items s])
    show ?thesis
    proof (cases "isNonEmptyTranscript t")
      case True
      then have "hasContent r" using t by (simp add: hasContent_iff)
      with "1.prems"(2) have items': "list_all hasContent (items @ [r])" by simp
      from inrange r t True "1.prems"(1)
      have "fst (extractLoop ev (ix + 1) (items @ [r]) s1) = Returns rs"
        by (simp add: extractLoop.simps[of ev ix items s] s1_def)
      from "1.IH"(1)[OF inrange r s1_def t True this items'] show ?thesis .
    next
      case False
      from inrange r t False "1.prems"(1)
      have "fst (extractLoop ev (ix + 1) items s1) = Returns rs"
        by (simp add: extractLoop.simps[of ev ix items s] s1_def)
      from "1.IH"(2)[OF inrange r s1_def t False this "1.prems"(2)] show ?thesis .
    qed
  qed
qed

lemma extractUpdate_frame:
  "\<exists>k. indexFinished s \<le> k \<and> fst (snd (extractUpdate s ev)) = s\<lparr> indexFinished := k \<rparr>"
proof -
  obtain k where k: "indexFinished s \<le> k"
     "snd (extractLoop ev (max (indexFinished s) (resultIndex ev)) [] s) = s\<lparr> indexFinished := k \<rparr>"
    using extractLoop_frame by blast
  have "fst (snd (extractUpdate s ev)) = snd (extractLoop ev (max (indexFinished s) (resultIndex ev)) [] s)"
    by (simp add: extractUpdate_def Let_def split: prod.splits outcome.splits)
  with k show ?thesis by metis
qed

lemma extractUpdate_items:
  "fst (extractUpdate s ev) = Returns rs \<Longrightarrow> list_all hasContent rs"
proof -
  assume a: "fst (extractUpdate s ev) = Returns rs"
  have "fst (extractLoop ev (max (indexFinished s) (resultIndex ev)) [] s) = Returns rs"
    using a by (simp add: extractUpdate_def Let_def split: prod.splits outcome.splits)
  then show ?thesis using extractLoop_items[of ev _ "[]" s rs] by simp
qed




section \<open>What an update can change\<close>

lemma pushUpdate_frame:
  "wholeLog (snd (pushUpdate s r)) = wholeLog s \<and> indexFinished (snd (pushUpdate s r)) = indexFinished s
   \<and> maxCharacters (snd (pushUpdate s r)) = maxCharacters s"
  by (simp add: pushUpdate_def Let_def split: option.splits outcome.splits)

lemma pushAll_frame:
  "wholeLog (snd (pushAll rs s)) = wholeLog s \<and> indexFinished (snd (pushAll rs s)) = indexFinished s
   \<and> maxCharacters (snd (pushAll rs s)) = maxCharacters s"
proof (induction rs arbitrary: s)
  case Nil
  show ?case by simp
next
  case (Cons r rs)
  show ?case
  proof (cases "pushUpdate s r")
    case (Pair out s1)
    have fr: "wholeLog s1 = wholeLog s" "indexFinished s1 = indexFinished s" "maxCharacters s1 = maxCharacters s"
      using pushUpdate_frame[of s r] Pair by simp_all
    show ?thesis
    proof (cases out)
      case (Returns u)
      with Pair fr Cons.IH[of s1] show ?thesis by simp
    next
      case (Throws e)
      with Pair fr show ?thesis by simp
    qed
  qed
qed

lemma update_frame:
  "wholeLog (fst (snd (update s ev))) = wholeLog s
   \<and> maxCharacters (fst (snd (update s ev))) = maxCharacters s
   \<and> indexFinished s \<le> indexFinished (fst (snd (update s ev)))"
proof -
  obtain k where k: "indexFinished s \<le> k" "fst (snd (extractUpdate s ev)) = s\<lparr> indexFinished := k \<rparr>"
    using extractUpdate_frame by blast
  obtain out s1 msgs where ex: "extractUpdate s ev = (out, s1, msgs)" by (cases "extractUpdate s ev") auto
  with k have s1: "s1 = s\<lparr> indexFinished := k \<rparr>" by simp
  show ?thesis
  proof (cases out)
    case (Throws e)
    with ex s1 k show ?thesis by (simp add: update_def)
  next
    case (Returns rs)
    show ?thesis
    proof (cases "length rs < 1")
      case True
      with Returns ex s1 k show ?thesis by (simp add: update_def)
    next
      case False
      have "fst (snd (update s ev)) = snd (pushAll rs (s1\<lparr> interimResults := [] \<rparr>))"
        using False Returns ex by (simp add: update_def split: prod.splits outcome.splits)
      with pushAll_frame[of rs "s1\<lparr> interimResults := [] \<rparr>"] s1 k show ?thesis by simp
    qed
  qed
qed



section \<open>The finalized index\<close>

lemma runLedger_updates_mono:
  "indexFinished s \<le> indexFinished (runLedger argLimit (map Update evs) s)"
proof (induction evs arbitrary: s)
  case Nil
  show ?case by simp
next
  case (Cons ev evs)
  have "indexFinished s \<le> indexFinished (fst (snd (update s ev)))"
    using update_frame by blast
  also have "\<dots> \<le> indexFinished (runLedger argLimit (map Update evs) (fst (snd (update s ev))))"
    by (rule Cons.IH)
  finally show ?case by simp
qed

text \<open>
  Claim C5.  \<open>indexFinished\<close> never decreases within a session: the state an \<open>update\<close> call
  leaves behind (on return and on a throw alike) has an \<open>indexFinished\<close> at least as large
  as before the call, and so has the state after any sequence of \<open>update\<close> calls with no
  \<open>init\<close> in between.
\<close>

theorem indexFinished_monotonic:
  "indexFinished s \<le> indexFinished (fst (snd (update s ev)))
   \<and> indexFinished s \<le> indexFinished (runLedger argLimit (map Update evs) s)"
  using update_frame[of s ev] runLedger_updates_mono[of s argLimit evs] by simp


section \<open>Checkpointing with init\<close>



lemma init_state:
  "snd (init argLimit s) =
     (if argLimit < length (currentResults s) then s
      else s\<lparr> wholeLog := wholeLog s @ currentResults s, currentResults := [],
              interimResults := [], indexFinished := - 1 \<rparr>)"
  by (auto simp: init_def pushSpread_def)





section \<open>An update that collects nothing\<close>

text \<open>
  Claim C3 as stated fails: a final result with an empty transcript is not collected, so
  \<open>update\<close> returns \<open>false\<close>, but the scan has already raised \<open>indexFinished\<close> from \<open>-1\<close>
  to \<open>0\<close>.
\<close>

theorem update_no_items_counterexample:
  "fst (extractUpdate newSpeechLog emptyFinalEvent) = Returns []
   \<and> fst (update newSpeechLog emptyFinalEvent) = Returns False
   \<and> indexFinished newSpeechLog = - 1
   \<and> indexFinished (fst (snd (update newSpeechLog emptyFinalEvent))) = 0"
  by (simp add: update_def extractUpdate_def extractLoop.simps newSpeechLog_def emptyFinalEvent_def
      finalResult_def at_index_def topTranscript_def isNonEmptyTranscript_def)

text \<open>
  Claim C3, amended.  When the extraction collects no item, \<open>update\<close> returns \<open>false\<close> and
  leaves \<open>wholeLog\<close>, \<open>currentResults\<close>, \<open>interimResults\<close> and \<open>maxCharacters\<close> as they
  were; \<open>indexFinished\<close> may have been raised by the scan, never lowered.  The only message
  logged is the warning about \<open>resultIndex\<close>.
\<close>

theorem update_no_items:
  assumes "fst (extractUpdate s ev) = Returns []"
  shows "\<exists>k. indexFinished s \<le> k \<and>
           update s ev = (Returns False, s\<lparr> indexFinished := k \<rparr>,
             if resultIndex ev \<le> indexFinished s
             then [WarnIndex (resultIndex ev) (indexFinished s)] else [])"
proof -
  obtain k where k: "indexFinished s \<le> k" "fst (snd (extractUpdate s ev)) = s\<lparr> indexFinished := k \<rparr>"
    using extractUpdate_frame by blast
  obtain out s1 msgs where ex: "extractUpdate s ev = (out, s1, msgs)"
    by (cases "extractUpdate s ev") auto
  from assms ex have out: "out = Returns []" by simp
  have msgs: "msgs = []"
    using ex out by (auto simp: extractUpdate_def Let_def split: prod.splits outcome.splits if_splits)
  from k ex have "s1 = s\<lparr> indexFinished := k \<rparr>" by simp
  with ex out msgs have "update s ev = (Returns False, s\<lparr> indexFinished := k \<rparr>,
             if resultIndex ev \<le> indexFinished s
             then [WarnIndex (resultIndex ev) (indexFinished s)] else [])"
    by (simp add: update_def)
  with k(1) show ?thesis by blast
qed

theorem update_no_items_witness:
  "fst (extractUpdate newSpeechLog emptyFinalEvent) = Returns []
   \<and> (\<exists>k. indexFinished newSpeechLog \<le> k \<and>
           update newSpeechLog emptyFinalEvent = (Returns False, newSpeechLog\<lparr> indexFinished := k \<rparr>, []))"
proof -
  have h: "fst (extractUpdate newSpeechLog emptyFinalEvent) = Returns []"
    by (simp add: extractUpdate_def extractLoop.simps newSpeechLog_def emptyFinalEvent_def
      finalResult_def at_index_def topTranscript_def isNonEmptyTranscript_def)
  have "\<not> resultIndex emptyFinalEvent \<le> indexFinished newSpeechLog"
    by (simp add: emptyFinalEvent_def newSpeechLog_def)
  with update_no_items[OF h] h show ?thesis by simp
qed


section \<open>The history is append-only\<close>

lemma runLedger_wholeLog_prefix:
  "prefix (wholeLog s) (wholeLog (runLedger argLimit cs s))"
proof (induction argLimit cs s rule: runLedger.induct)
  case (1 argLimit s)
  show ?case by simp
next
  case (2 argLimit cs s)
  have "prefix (wholeLog s) (wholeLog (snd (init argLimit s)))" by (simp add: init_state)
  with 2 show ?case by (auto intro: prefix_order.trans)
next
  case (3 argLimit ev cs s)
  have "wholeLog (fst (snd (update s ev))) = wholeLog s" using update_frame by blast
  with 3 show ?case by simp
qed

text \<open>
  Claim C10.  \<open>wholeLog\<close> is changed by \<open>init\<close> only, and only at its end: \<open>update\<close> leaves
  it as it was for every input (also when the call throws), \<open>getCurrentSpeech\<close> and
  \<open>getWholeLog\<close> leave the whole ledger as it was, \<open>init\<close> appends \<open>currentResults\<close> to it
  (or, where it throws, leaves it as it was), and after any sequence of \<open>init\<close> and
  \<open>update\<close> calls the earlier history is still a prefix of the later one.
\<close>

theorem wholeLog_append_only:
  "wholeLog (fst (snd (update s ev))) = wholeLog s
   \<and> snd (getCurrentSpeech s) = s
   \<and> fst (snd (getWholeLog s)) = s
   \<and> wholeLog (snd (init argLimit s))
       = (if argLimit < length (currentResults s) then wholeLog s
          else wholeLog s @ currentResults s)
   \<and> prefix (wholeLog s) (wholeLog (runLedger argLimit cs s))"
proof -
  have "snd (getCurrentSpeech s) = s"
    by (simp add: getCurrentSpeech_def split: outcome.splits)
  moreover have "fst (snd (getWholeLog s)) = s"
    by (simp add: getWholeLog_def Let_def split: outcome.splits)
  moreover have "wholeLog (snd (init argLimit s))
       = (if argLimit < length (currentResults s) then wholeLog s
          else wholeLog s @ currentResults s)"
    by (simp add: init_state)
  ultimately show ?thesis
    using update_frame[of s ev] runLedger_wholeLog_prefix[of s argLimit cs] by simp
qed


section \<open>Entries stay well formed\<close>

lemma pushUpdate_current_all:
  assumes "list_all P (currentResults s)" "P r"
  shows "list_all P (currentResults (snd (pushUpdate s r)))"
proof -
  have "list_all P (butlast (currentResults s))"
    using assms(1) by (auto simp: list_all_iff dest: in_set_butlastD)
  with assms show ?thesis
    by (simp add: pushUpdate_def Let_def split: option.splits outcome.splits)
qed

lemma pushUpdate_interim_all:
  assumes "list_all P (interimResults s)" "P r"
  shows "list_all P (interimResults (snd (pushUpdate s r)))"
  using assms
  by (simp add: pushUpdate_def Let_def split: option.splits outcome.splits)

lemma pushAll_current_all:
  "list_all P (currentResults s) \<Longrightarrow> list_all P rs \<Longrightarrow>
   list_all P (currentResults (snd (pushAll rs s)))"
proof (induction rs arbitrary: s)
  case Nil
  then show ?case by simp
next
  case (Cons r rs)
  obtain out s1 where p: "pushUpdate s r = (out, s1)" by (cases "pushUpdate s r") auto
  from Cons.prems have "P r" "list_all P rs" by simp_all
  with pushUpdate_current_all[of P s r] Cons.prems p
  have s1: "list_all P (currentResults s1)" by simp
  show ?case
  proof (cases out)
    case (Returns u)
    with p Cons.IH[OF s1 \<open>list_all P rs\<close>] show ?thesis by simp
  next
    case (Throws e)
    with p s1 show ?thesis by simp
  qed
qed

lemma pushAll_interim_all:
  "list_all P (interimResults s) \<Longrightarrow> list_all P rs \<Longrightarrow>
   list_all P (interimResults (snd (pushAll rs s)))"
proof (induction rs arbitrary: s)
  case Nil
  then show ?case by simp
next
  case (Cons r rs)
  obtain out s1 where p: "pushUpdate s r = (out, s1)" by (cases "pushUpdate s r") auto
  from Cons.prems have "P r" "list_all P rs" by simp_all
  with pushUpdate_interim_all[of P s r] Cons.prems p
  have s1: "list_all P (interimResults s1)" by simp
  show ?case
  proof (cases out)
    case (Returns u)
    with p Cons.IH[OF s1 \<open>list_all P rs\<close>] show ?thesis by simp
  next
    case (Throws e)
    with p s1 show ?thesis by simp
  qed
qed

text \<open>The three ways an update can go.\<close>

lemma update_state:
  "\<exists>k. indexFinished s \<le> k \<and>
     fst (snd (update s ev)) =
       (case fst (extractUpdate s ev) of
          Throws e \<Rightarrow> s\<lparr> indexFinished := k \<rparr>
        | Returns rs \<Rightarrow>
            if rs = [] then s\<lparr> indexFinished := k \<rparr>
            else snd (pushAll rs (s\<lparr> indexFinished := k, interimResults := [] \<rparr>)))"
proof -
  obtain k where k: "indexFinished s \<le> k" "fst (snd (extractUpdate s ev)) = s\<lparr> indexFinished := k \<rparr>"
    using extractUpdate_frame by blast
  obtain out s1 msgs where ex: "extractUpdate s ev = (out, s1, msgs)"
    by (cases "extractUpdate s ev") auto
  with k have s1: "s1 = s\<lparr> indexFinished := k \<rparr>" by simp
  have "fst (snd (update s ev)) =
       (case fst (extractUpdate s ev) of
          Throws e \<Rightarrow> s\<lparr> indexFinished := k \<rparr>
        | Returns rs \<Rightarrow>
            if rs = [] then s\<lparr> indexFinished := k \<rparr>
            else snd (pushAll rs (s\<lparr> indexFinished := k, interimResults := [] \<rparr>)))"
    using ex s1 by (cases out) (auto simp: update_def split: prod.splits outcome.splits)
  with k(1) show ?thesis by blast
qed



lemma update_current_all:
  assumes "list_all P (currentResults s)"
    and "\<And>rs. fst (extractUpdate s ev) = Returns rs \<Longrightarrow> list_all P rs"
  shows "list_all P (currentResults (fst (snd (update s ev))))"
proof -
  obtain k where k: "fst (snd (update s ev)) =
       (case fst (extractUpdate s ev) of
          Throws e \<Rightarrow> s\<lparr> indexFinished := k \<rparr>
        | Returns rs \<Rightarrow>
            if rs = [] then s\<lparr> indexFinished := k \<rparr>
            else snd (pushAll rs (s\<lparr> indexFinished := k, interimResults := [] \<rparr>)))"
    using update_state by blast
  show ?thesis
  proof (cases "fst (extractUpdate s ev)")
    case (Throws e)
    with k assms(1) show ?thesis by simp
  next
    case (Returns rs)
    from assms(2)[OF Returns] have "list_all P rs" .
    with pushAll_current_all[of P "s\<lparr> indexFinished := k, interimResults := [] \<rparr>" rs] assms(1)
    have "list_all P (currentResults (snd (pushAll rs (s\<lparr> indexFinished := k, interimResults := [] \<rparr>))))"
      by simp
    with k Returns assms(1) show ?thesis by simp
  qed
qed

lemma update_interim_all:
  assumes "list_all P (interimResults s)"
    and "\<And>rs. fst (extractUpdate s ev) = Returns rs \<Longrightarrow> list_all P rs"
  shows "list_all P (interimResults (fst (snd (update s ev))))"
proof -
  obtain k where k: "fst (snd (update s ev)) =
       (case fst (extractUpdate s ev) of
          Throws e \<Rightarrow> s\<lparr> indexFinished := k \<rparr>
        | Returns rs \<Rightarrow>
            if rs = [] then s\<lparr> indexFinished := k \<rparr>
            else snd (pushAll rs (s\<lparr> indexFinished := k, interimResults := [] \<rparr>)))"
    using update_state by blast
  show ?thesis
  proof (cases "fst (extractUpdate s ev)")
    case (Throws e)
    with k assms(1) show ?thesis by simp
  next
    case (Returns rs)
    from assms(2)[OF Returns] have "list_all P rs" .
    with pushAll_interim_all[of P "s\<lparr> indexFinished := k, interimResults := [] \<rparr>" rs]
    have "list_all P (interimResults (snd (pushAll rs (s\<lparr> indexFinished := k, interimResults := [] \<rparr>))))"
      by simp
    with k Returns assms(1) show ?thesis by simp
  qed
qed


lemma runLedger_hasContent:
  "list_all hasContent (wholeLog s) \<Longrightarrow> list_all hasContent (currentResults s) \<Longrightarrow>
   list_all hasContent (interimResults s) \<Longrightarrow>
   list_all hasContent (wholeLog (runLedger argLimit cs s))
   \<and> list_all hasContent (currentResults (runLedger argLimit cs s))
   \<and> list_all hasContent (interimResults (runLedger argLimit cs s))"
proof (induction argLimit cs s rule: runLedger.induct)
  case (1 argLimit s)
  then show ?case by simp
next
  case (2 argLimit cs s)
  from "2.prems" have "list_all hasContent (wholeLog (snd (init argLimit s)))"
    "list_all hasContent (currentResults (snd (init argLimit s)))"
    "list_all hasContent (interimResults (snd (init argLimit s)))"
    by (simp_all add: init_state)
  from "2.IH"[OF this] show ?case by simp
next
  case (3 argLimit ev cs s)
  let ?s' = "fst (snd (update s ev))"
  have "wholeLog ?s' = wholeLog s" using update_frame by blast
  with "3.prems" have a: "list_all hasContent (wholeLog ?s')" by simp
  have b: "list_all hasContent (currentResults ?s')"
    using "3.prems"(2) extractUpdate_items by (rule update_current_all)
  have c: "list_all hasContent (interimResults ?s')"
    using "3.prems"(3) extractUpdate_items by (rule update_interim_all)
  from "3.IH"[OF a b c] show ?case by simp
qed

lemma hasContent_not_empty:
  "hasContent r \<Longrightarrow>
   topTranscript r \<noteq> Returns JNull \<and> topTranscript r \<noteq> Returns JUndefined
   \<and> topTranscript r \<noteq> Returns (JStr [])"
  by (auto simp: hasContent_def)

text \<open>
  Claim C7.  The extraction never collects a result whose top transcript is \<open>null\<close>,
  missing or the empty string: every collected item has a top transcript with a positive
  length (\<open>hasContent\<close>), which none of these three has.  Hence, after any sequence of
  \<open>update\<close> and \<open>init\<close> calls on a new ledger, every entry of \<open>currentResults\<close> and of
  \<open>wholeLog\<close> has such a transcript, and none an empty one.
\<close>

theorem empty_results_filtered:
  "(\<forall>rs. fst (extractUpdate s ev) = Returns rs \<longrightarrow> list_all hasContent rs)
   \<and> list_all hasContent (currentResults (runLedger argLimit cs newSpeechLog))
   \<and> list_all hasContent (wholeLog (runLedger argLimit cs newSpeechLog))
   \<and> (\<forall>r. hasContent r \<longrightarrow>
         topTranscript r \<noteq> Returns JNull \<and> topTranscript r \<noteq> Returns JUndefined
         \<and> topTranscript r \<noteq> Returns (JStr []))"
  using extractUpdate_items[of s ev] runLedger_hasContent[of newSpeechLog argLimit cs]
    hasContent_not_empty
  by (simp add: newSpeechLog_def)

theorem empty_results_filtered_witness:
  "fst (extractUpdate newSpeechLog spuriousEvent) = Returns [finalResult (ascii ''ok'')]
   \<and> list_all hasContent [finalResult (ascii ''ok'')]
   \<and> \<not> hasContent (finalResult [])
   \<and> currentResults (runLedger 65535 [Update spuriousEvent] newSpeechLog) = [finalResult (ascii ''ok'')]
   \<and> wholeLog (runLedger 65535 [Update spuriousEvent, Init] newSpeechLog) = [finalResult (ascii ''ok'')]
   \<and> list_all hasContent (currentResults (runLedger 65535 [Update spuriousEvent] newSpeechLog))
   \<and> list_all hasContent (wholeLog (runLedger 65535 [Update spuriousEvent, Init] newSpeechLog))
   \<and> hasContent (finalResult (ascii ''ok''))
   \<and> topTranscript (finalResult (ascii ''ok'')) \<noteq> Returns (JStr [])"
proof -
  have ex: "fst (extractUpdate newSpeechLog spuriousEvent) = Returns [finalResult (ascii ''ok'')]"
    by (simp add: extractUpdate_def extractLoop.simps newSpeechLog_def spuriousEvent_def
        finalResult_def at_index_def topTranscript_def ascii_def isNonEmptyTranscript_def)
  have up: "update newSpeechLog spuriousEvent =
      (Returns True, newSpeechLog\<lparr> indexFinished := 1, currentResults := [finalResult (ascii ''ok'')] \<rparr>,
       [NewItems 1 0])"
    by (simp add: update_def extractUpdate_def extractLoop.simps newSpeechLog_def spuriousEvent_def
        finalResult_def at_index_def topTranscript_def ascii_def pushUpdate_def getLastItem_def
        isNonEmptyTranscript_def)
  have nt: "\<not> hasContent (finalResult [])"
    by (simp add: hasContent_def finalResult_def topTranscript_def)
  have cur: "currentResults (runLedger 65535 [Update spuriousEvent] newSpeechLog)
      = [finalResult (ascii ''ok'')]"
    by (simp add: up)
  have wl: "wholeLog (runLedger 65535 [Update spuriousEvent, Init] newSpeechLog)
      = [finalResult (ascii ''ok'')]"
    by (simp add: up, simp add: init_state newSpeechLog_def)
  have all: "list_all hasContent [finalResult (ascii ''ok'')]"
    using empty_results_filtered[of newSpeechLog spuriousEvent 65535 "[]"] ex by simp
  then have hc: "hasContent (finalResult (ascii ''ok''))" by simp
  from empty_results_filtered[of newSpeechLog spuriousEvent 65535 "[Update spuriousEvent]"]
       empty_results_filtered[of newSpeechLog spuriousEvent 65535 "[Update spuriousEvent, Init]"]
       ex nt cur wl all hc
  show ?thesis by simp
qed


section \<open>Exporting the log\<close>

lemma endsWith_single: "endsWith t [c] \<longleftrightarrow> t \<noteq> [] \<and> last t = c"
proof (cases t rule: rev_cases)
  case Nil
  then show ?thesis by (simp add: endsWith_def)
next
  case (snoc ys y)
  then show ?thesis by (auto simp: endsWith_def suffix_def)
qed

lemma addPunctuation_spec: "addPunctuationIfNotExists (JStr t) = normalizedSpec t"
  by (auto simp: addPunctuationIfNotExists_def normalizedSpec_def ascii_def endsWith_single)

text \<open>The three examples of the specification: a sentence without a mark, one that ends
  in \<open>!\<close>, and the empty string.\<close>

lemma addPunctuation_examples:
  "addPunctuationIfNotExists (JStr konnichiwa) = konnichiwa @ [0x3002]"
  "addPunctuationIfNotExists (JStr (ascii ''Hello!'')) = ascii ''Hello!''"
  "addPunctuationIfNotExists (JStr []) = []"
  "addPunctuationIfNotExists JNull = []"
  by (simp_all add: addPunctuationIfNotExists_def konnichiwa_def ascii_def endsWith_def suffix_def)

lemma addPunctuation_line:
  "topTranscript r = Returns v \<Longrightarrow> addPunctuationIfNotExists v @ [0x0A] = lineOfSpec r"
  by (cases v) (simp_all add: lineOfSpec_def addPunctuation_spec, simp_all add: addPunctuationIfNotExists_def)

lemma logLines_map:
  "list_all hasTop rs \<Longrightarrow> logLines rs lg = Returns (lg @ map lineOfSpec rs)"
proof (induction rs arbitrary: lg)
  case Nil
  show ?case by simp
next
  case (Cons r rs)
  from Cons.prems obtain v where v: "topTranscript r = Returns v"
    by (auto simp: hasTop_def split: outcome.splits)
  from Cons.prems have "list_all hasTop rs" by simp
  from Cons.IH[OF this] v addPunctuation_line[OF v] show ?case by simp
qed

lemma getWholeLog_map:
  assumes "list_all hasTop (wholeLog s)" "list_all hasTop (currentResults s)"
    "list_all hasTop (interimResults s)"
  shows "getWholeLog s =
           (Returns (map lineOfSpec (wholeLog s @ currentResults s @ interimResults s)), s,
            [WholeLogCount (length (wholeLog s))])"
  using assms by (simp add: getWholeLog_def logLines_map)

lemma list_all_hasContent_hasTop: "list_all hasContent rs \<Longrightarrow> list_all hasTop rs"
  by (auto simp: list_all_iff hasContent_hasTop)

text \<open>
  Claim C8.  On a ledger whose entries all have a top alternative, \<open>getWholeLog\<close> returns
  one line per entry of \<open>wholeLog\<close>, then \<open>currentResults\<close>, then \<open>interimResults\<close>, in
  that order: the transcript normalized as the specification says, followed by a line feed;
  the ledger is returned as it was.  Every ledger reached from a new one by \<open>init\<close> and
  \<open>update\<close> calls has such entries, and \<open>addPunctuationIfNotExists\<close> on a string is the
  specified normalization.
\<close>

theorem getWholeLog_lines:
  "(list_all hasTop (wholeLog s @ currentResults s @ interimResults s) \<longrightarrow>
      getWholeLog s =
        (Returns (map lineOfSpec (wholeLog s @ currentResults s @ interimResults s)), s,
         [WholeLogCount (length (wholeLog s))]))
   \<and> list_all hasTop (wholeLog (runLedger argLimit cs newSpeechLog) @ currentResults (runLedger argLimit cs newSpeechLog)
        @ interimResults (runLedger argLimit cs newSpeechLog))
   \<and> addPunctuationIfNotExists (JStr t) = normalizedSpec t"
proof -
  have "list_all hasContent (wholeLog (runLedger argLimit cs newSpeechLog)) \<and>
        list_all hasContent (currentResults (runLedger argLimit cs newSpeechLog)) \<and>
        list_all hasContent (interimResults (runLedger argLimit cs newSpeechLog))"
    by (rule runLedger_hasContent) (simp_all add: newSpeechLog_def)
  then have "list_all hasTop (wholeLog (runLedger argLimit cs newSpeechLog) @ currentResults (runLedger argLimit cs newSpeechLog)
        @ interimResults (runLedger argLimit cs newSpeechLog))"
    by (simp add: list_all_hasContent_hasTop)
  then show ?thesis using getWholeLog_map[of s] addPunctuation_spec[of t] by simp
qed

theorem getWholeLog_lines_witness:
  "list_all hasTop (wholeLog exportLedger @ currentResults exportLedger @ interimResults exportLedger)
   \<and> fst (getWholeLog exportLedger) =
       Returns [ascii ''A'' @ [0x3002, 0x0A], ascii ''B'' @ [0x3002, 0x0A], ascii ''C'' @ [0x3002, 0x0A]]
   \<and> fst (snd (getWholeLog exportLedger)) = exportLedger"
proof -
  have h: "list_all hasTop (wholeLog exportLedger @ currentResults exportLedger @ interimResults exportLedger)"
    by (simp add: exportLedger_def hasTop_def topTranscript_def finalResult_def interimResult_def)
  have l: "map lineOfSpec (wholeLog exportLedger @ currentResults exportLedger @ interimResults exportLedger)
     = [ascii ''A'' @ [0x3002, 0x0A], ascii ''B'' @ [0x3002, 0x0A], ascii ''C'' @ [0x3002, 0x0A]]"
    by (simp add: exportLedger_def lineOfSpec_def normalizedSpec_def topTranscript_def finalResult_def
        interimResult_def ascii_def)
  from getWholeLog_lines[of exportLedger 65535 "[]" "[]"] h l show ?thesis by simp
qed


section \<open>Replacing a resent utterance\<close>

lemma hasStringTop_hasTop: "hasStringTop r \<Longrightarrow> hasTop r"
  by (auto simp: hasStringTop_def hasTop_def split: outcome.splits)

lemma pushUpdate_final:
  assumes "isFinalResult r" "hasStringTop r" "list_all hasTop (currentResults s)"
  shows "pushUpdate s r = (Returns (), s\<lparr> currentResults := dedupPushSpec (currentResults s) r \<rparr>)"
proof -
  from assms(2) obtain t where t: "topTranscript r = Returns t" "hasStartsWith t"
    by (auto simp: hasStringTop_def split: outcome.splits)
  show ?thesis
  proof (cases "currentResults s = []")
    case True
    with assms(1) show ?thesis
      by (simp add: pushUpdate_def getLastItem_def dedupPushSpec_def isFinalResult_def)
  next
    case False
    then have "last (currentResults s) \<in> set (currentResults s)" by simp
    with assms(3) have "hasTop (last (currentResults s))" by (simp add: list_all_iff)
    then obtain p where p: "topTranscript (last (currentResults s)) = Returns p"
      by (auto simp: hasTop_def split: outcome.splits)
    from False have "\<not> length (currentResults s) < 1" by (cases "currentResults s") auto
    with assms(1) t p False show ?thesis
      by (simp add: pushUpdate_def getLastItem_def dedupPushSpec_def isFinalResult_def
          entryText_def startsWith_def Let_def)
  qed
qed

lemma pushUpdate_interim:
  "\<not> isFinalResult r \<Longrightarrow>
   pushUpdate s r = (Returns (), s\<lparr> interimResults := interimResults s @ [r] \<rparr>)"
  by (simp add: pushUpdate_def isFinalResult_def)

lemma dedupPushSpec_hasTop:
  assumes "list_all hasTop window" "hasTop r"
  shows "list_all hasTop (dedupPushSpec window r)"
proof -
  have "list_all hasTop (butlast window)"
    using assms(1) by (auto simp: list_all_iff dest: in_set_butlastD)
  with assms show ?thesis by (simp add: dedupPushSpec_def)
qed

lemma pushAll_spec:
  "list_all hasStringTop (filter isFinalResult rs) \<Longrightarrow> list_all hasTop (currentResults s) \<Longrightarrow>
   pushAll rs s =
     (Returns (),
      s\<lparr> currentResults := foldl dedupPushSpec (currentResults s) (filter isFinalResult rs),
         interimResults := interimResults s @ filter (\<lambda>r. \<not> isFinalResult r) rs \<rparr>)"
proof (induction rs arbitrary: s)
  case Nil
  show ?case by simp
next
  case (Cons r rs)
  show ?case
  proof (cases "isFinalResult r")
    case True
    with Cons.prems(1) have str: "hasStringTop r"
      and rest: "list_all hasStringTop (filter isFinalResult rs)" by simp_all
    let ?s1 = "s\<lparr> currentResults := dedupPushSpec (currentResults s) r \<rparr>"
    have p: "pushUpdate s r = (Returns (), ?s1)"
      using True str Cons.prems(2) by (rule pushUpdate_final)
    have "list_all hasTop (currentResults ?s1)"
      using dedupPushSpec_hasTop[OF Cons.prems(2) hasStringTop_hasTop[OF str]] by simp
    from Cons.IH[OF rest this] p True show ?thesis by simp
  next
    case False
    with Cons.prems(1) have rest: "list_all hasStringTop (filter isFinalResult rs)" by simp
    let ?s1 = "s\<lparr> interimResults := interimResults s @ [r] \<rparr>"
    have p: "pushUpdate s r = (Returns (), ?s1)"
      using False by (rule pushUpdate_interim)
    have "list_all hasTop (currentResults ?s1)" using Cons.prems(2) by simp
    from Cons.IH[OF rest this] p False show ?thesis by simp
  qed
qed

lemma update_applies:
  assumes "fst (extractUpdate s ev) = Returns rs" and "rs \<noteq> []"
    and "list_all hasStringTop (filter isFinalResult rs)"
    and "list_all hasTop (currentResults s)"
  shows "fst (update s ev) = Returns True
       \<and> currentResults (fst (snd (update s ev)))
           = foldl dedupPushSpec (currentResults s) (filter isFinalResult rs)
       \<and> interimResults (fst (snd (update s ev))) = filter (\<lambda>r. \<not> isFinalResult r) rs
       \<and> wholeLog (fst (snd (update s ev))) = wholeLog s"
proof -
  obtain k where k: "fst (snd (extractUpdate s ev)) = s\<lparr> indexFinished := k \<rparr>"
    using extractUpdate_frame by blast
  obtain out s1 msgs where ex: "extractUpdate s ev = (out, s1, msgs)"
    by (cases "extractUpdate s ev") auto
  with k assms(1) have s1: "s1 = s\<lparr> indexFinished := k \<rparr>" and out: "out = Returns rs" by simp_all
  let ?s2 = "s1\<lparr> interimResults := [] \<rparr>"
  have "list_all hasTop (currentResults ?s2)" using assms(4) s1 by simp
  from pushAll_spec[OF assms(3) this]
  have pa: "pushAll rs ?s2 =
     (Returns (),
      ?s2\<lparr> currentResults := foldl dedupPushSpec (currentResults ?s2) (filter isFinalResult rs),
           interimResults := interimResults ?s2 @ filter (\<lambda>r. \<not> isFinalResult r) rs \<rparr>)" .
  from assms(2) have "\<not> length rs < 1" by (cases rs) auto
  with ex out pa s1 show ?thesis by (simp add: update_def)
qed

text \<open>What the specification's rule does to the window, spelled out.\<close>

lemma dedupPushSpec_replace:
  "window \<noteq> [] \<Longrightarrow> prefix (entryText (last window)) (entryText r) \<Longrightarrow>
   length (dedupPushSpec window r) = length window \<and> last (dedupPushSpec window r) = r
   \<and> butlast (dedupPushSpec window r) = butlast window"
  by (simp add: dedupPushSpec_def)

lemma dedupPushSpec_append:
  "window = [] \<or> \<not> prefix (entryText (last window)) (entryText r) \<Longrightarrow>
   dedupPushSpec window r = window @ [r]"
  by (auto simp: dedupPushSpec_def)

text \<open>
  Claim C6.  When \<open>update\<close> collects items, it returns \<open>true\<close> and applies the final ones
  to \<open>currentResults\<close> in order, each as the specification says: a final result whose
  transcript has the transcript of the last entry as a prefix replaces that entry (the
  length of \<open>currentResults\<close> is unchanged and its last entry is the new result); otherwise,
  or when \<open>currentResults\<close> is empty, it is appended.  The collected results that are not
  final make up \<open>interimResults\<close>, and \<open>wholeLog\<close> is as before.  Stated for string
  transcripts of the final items and a ledger whose entries have a top alternative.
\<close>

theorem update_dedup:
  "(fst (extractUpdate s ev) = Returns rs \<and> rs \<noteq> []
      \<and> list_all hasStringTop (filter isFinalResult rs)
      \<and> list_all hasTop (currentResults s) \<longrightarrow>
    fst (update s ev) = Returns True
    \<and> currentResults (fst (snd (update s ev)))
        = foldl dedupPushSpec (currentResults s) (filter isFinalResult rs)
    \<and> interimResults (fst (snd (update s ev))) = filter (\<lambda>r. \<not> isFinalResult r) rs
    \<and> wholeLog (fst (snd (update s ev))) = wholeLog s)
   \<and> list_all hasTop (currentResults (runLedger argLimit cs newSpeechLog))"
proof -
  have "list_all hasContent (wholeLog (runLedger argLimit cs newSpeechLog)) \<and>
        list_all hasContent (currentResults (runLedger argLimit cs newSpeechLog)) \<and>
        list_all hasContent (interimResults (runLedger argLimit cs newSpeechLog))"
    by (rule runLedger_hasContent) (simp_all add: newSpeechLog_def)
  then have "list_all hasTop (currentResults (runLedger argLimit cs newSpeechLog))"
    by (auto simp: list_all_iff hasContent_hasTop)
  with update_applies[of s ev rs] show ?thesis by blast
qed

lemma update_dedup_example:
  "update dedupLedger dedupEvent =
     (Returns True, dedupLedger\<lparr> currentResults := [finalResult konnichiwa] \<rparr>,
      [WarnIndex 0 0, NewItems 1 0])"
  by (simp add: update_def extractUpdate_def extractLoop.simps newSpeechLog_def dedupLedger_def
      dedupEvent_def finalResult_def at_index_def topTranscript_def pushUpdate_def getLastItem_def
      startsWith_def konnichi_def konnichiwa_def isNonEmptyTranscript_def)

theorem update_dedup_witness:
  "fst (extractUpdate dedupLedger dedupEvent) = Returns [finalResult konnichiwa]
   \<and> list_all hasStringTop (filter isFinalResult [finalResult konnichiwa])
   \<and> list_all hasTop (currentResults dedupLedger)
   \<and> currentResults dedupLedger = [finalResult konnichi]
   \<and> fst (update dedupLedger dedupEvent) = Returns True
   \<and> currentResults (fst (snd (update dedupLedger dedupEvent))) = [finalResult konnichiwa]
   \<and> fst (extractUpdate dedupLedger appendEvent)
       = Returns [finalResult (ascii ''abc''), interimResult (ascii ''de'')]
   \<and> currentResults (fst (snd (update dedupLedger appendEvent)))
       = [finalResult konnichi, finalResult (ascii ''abc'')]
   \<and> interimResults (fst (snd (update dedupLedger appendEvent))) = [interimResult (ascii ''de'')]
   \<and> fst (extractUpdate newSpeechLog dedupEvent) = Returns [finalResult konnichiwa]
   \<and> currentResults (fst (snd (update newSpeechLog dedupEvent))) = [finalResult konnichiwa]"
proof -
  note ev_defs = extractUpdate_def extractLoop.simps newSpeechLog_def dedupLedger_def
      dedupEvent_def appendEvent_def finalResult_def interimResult_def at_index_def
      topTranscript_def isNonEmptyTranscript_def konnichi_def konnichiwa_def ascii_def
  have e1: "fst (extractUpdate dedupLedger dedupEvent) = Returns [finalResult konnichiwa]"
    by (simp add: ev_defs)
  have e2: "fst (extractUpdate dedupLedger appendEvent)
       = Returns [finalResult (ascii ''abc''), interimResult (ascii ''de'')]"
    by (simp add: ev_defs)
  have e3: "fst (extractUpdate newSpeechLog dedupEvent) = Returns [finalResult konnichiwa]"
    by (simp add: ev_defs)
  have fin: "isFinalResult (finalResult u)" "\<not> isFinalResult (interimResult u)"
    "hasStringTop (finalResult u)" "hasTop (finalResult u)" for u
    by (simp_all add: isFinalResult_def hasStringTop_def hasTop_def finalResult_def
        interimResult_def topTranscript_def)
  have cur: "currentResults dedupLedger = [finalResult konnichi]" "currentResults newSpeechLog = []"
    by (simp_all add: dedupLedger_def newSpeechLog_def)
  have etext: "entryText (finalResult u) = u" for u
    by (simp add: entryText_def finalResult_def topTranscript_def)
  have pre: "prefix konnichi konnichiwa" "\<not> prefix konnichi (ascii ''abc'')"
    by (simp_all add: konnichi_def konnichiwa_def ascii_def)
  have r1: "currentResults (fst (snd (update dedupLedger dedupEvent))) = [finalResult konnichiwa]"
    "fst (update dedupLedger dedupEvent) = Returns True"
    using update_dedup[where s = dedupLedger and ev = dedupEvent and rs = "[finalResult konnichiwa]"]
      e1 fin cur etext pre by (simp_all add: dedupPushSpec_def)
  have r2: "currentResults (fst (snd (update dedupLedger appendEvent)))
       = [finalResult konnichi, finalResult (ascii ''abc'')]"
    "interimResults (fst (snd (update dedupLedger appendEvent))) = [interimResult (ascii ''de'')]"
    using update_dedup[where s = dedupLedger and ev = appendEvent
        and rs = "[finalResult (ascii ''abc''), interimResult (ascii ''de'')]"]
      e2 fin cur etext pre by (simp_all add: dedupPushSpec_def)
  have r3: "currentResults (fst (snd (update newSpeechLog dedupEvent))) = [finalResult konnichiwa]"
    using update_dedup[where s = newSpeechLog and ev = dedupEvent and rs = "[finalResult konnichiwa]"]
      e3 fin cur by (simp add: dedupPushSpec_def)
  from e1 e2 e3 fin cur r1 r2 r3 show ?thesis by simp
qed


section \<open>When the ledger returns normally\<close>













text \<open>An update that logs the warning and still applies its items.\<close>

lemma update_resentEvent:
  "update resentLedger resentEvent =
     (Returns True,
      resentLedger\<lparr> currentResults := [finalResult (ascii ''ab'')],
                     interimResults := [interimResult (ascii ''c'')] \<rparr>,
      [WarnIndex 0 0, NewItems 2 0])"
  by (simp add: update_def extractUpdate_def extractLoop.simps newSpeechLog_def resentLedger_def
      resentEvent_def finalResult_def interimResult_def at_index_def topTranscript_def
      pushUpdate_def getLastItem_def startsWith_def ascii_def isNonEmptyTranscript_def)



section \<open>The character budget\<close>

lemmas scenario_defs =
  update_def extractUpdate_def extractLoop.simps newSpeechLog_def finalResult_def interimResult_def
  at_index_def topTranscript_def pushUpdate_def getLastItem_def startsWith_def ascii_def
  isNonEmptyTranscript_def

lemma trimLoop_bound:
  assumes "list_all hasContent (currentResults s)"
  shows "n \<le> length (currentResults s) \<Longrightarrow> a = totalLength (drop n (currentResults s)) \<Longrightarrow>
         a \<le> maxCharacters s \<Longrightarrow>
         \<exists>k\<le>n. trimLoop n (Num a) s = (Returns (), s\<lparr> currentResults := drop k (currentResults s) \<rparr>)
              \<and> totalLength (drop k (currentResults s)) \<le> maxCharacters s
              \<and> (0 < k \<longrightarrow> maxCharacters s < totalLength (drop (k - 1) (currentResults s)))"
proof (induction n arbitrary: a)
  case 0
  then have "trimLoop 0 (Num a) s = (Returns (), s\<lparr> currentResults := drop 0 (currentResults s) \<rparr>)
      \<and> totalLength (drop 0 (currentResults s)) \<le> maxCharacters s" by simp
  then show ?case by blast
next
  case (Suc ix)
  let ?cur = "currentResults s"
  define r where "r = ?cur ! ix"
  from Suc.prems(1) have ix: "ix < length ?cur" by simp
  then have at: "at_index ?cur (int ix) = Some r" by (simp add: at_index_def r_def)
  from ix assms have "hasContent r" by (simp add: list_all_length r_def)
  then obtain t where t0: "topTranscript r = Returns t" "isNonEmptyTranscript t"
    by (auto simp: hasContent_iff)
  then obtain m where m: "lengthProperty t = Some m" "t \<noteq> JNull" "t \<noteq> JUndefined"
    by (auto simp: isNonEmptyTranscript_def split: option.splits)
  then have t: "topTranscript r = Returns t" "lengthOf t = Returns (Num (int m))"
    "transcriptLength r = int m"
    using t0 by (simp_all add: lengthOf_def transcriptLength_def)
  have dr: "drop ix ?cur = r # drop (Suc ix) ?cur"
    using ix by (simp add: r_def Cons_nth_drop_Suc)
  have tot: "totalLength (drop ix ?cur) = a + int m"
    using Suc.prems(2) t by (simp add: dr totalLength_def)
  show ?case
  proof (cases "maxCharacters s < a + int m")
    case True
    with at t have "trimLoop (Suc ix) (Num a) s
        = (Returns (), s\<lparr> currentResults := drop (Suc ix) ?cur \<rparr>)" by simp
    moreover have "totalLength (drop (Suc ix) ?cur) \<le> maxCharacters s"
      using Suc.prems(2,3) by simp
    moreover have "maxCharacters s < totalLength (drop (Suc ix - 1) ?cur)"
      using True tot by simp
    ultimately show ?thesis by blast
  next
    case False
    with at t have eq: "trimLoop (Suc ix) (Num a) s = trimLoop ix (Num (a + int m)) s"
      by simp
    from Suc.IH[of "a + int m"] ix tot False
    obtain k where "k \<le> ix" "trimLoop ix (Num (a + int m)) s
          = (Returns (), s\<lparr> currentResults := drop k ?cur \<rparr>)"
       "totalLength (drop k ?cur) \<le> maxCharacters s"
       "0 < k \<longrightarrow> maxCharacters s < totalLength (drop (k - 1) ?cur)"
      by auto
    with eq have "k \<le> Suc ix \<and> trimLoop (Suc ix) (Num a) s
          = (Returns (), s\<lparr> currentResults := drop k ?cur \<rparr>)
        \<and> totalLength (drop k ?cur) \<le> maxCharacters s
        \<and> (0 < k \<longrightarrow> maxCharacters s < totalLength (drop (k - 1) ?cur))" by simp
    then show ?thesis by blast
  qed
qed

text \<open>
  What \<open>_trimCurrentResults\<close> does when it is called on entries with string transcripts and
  a non-negative budget: it drops the first \<open>k\<close> entries and nothing else, what is left is
  within the budget, and one entry more would exceed it.
\<close>

lemma trimCurrentResults_bound:
  assumes "list_all hasContent (currentResults s)" "0 \<le> maxCharacters s"
  shows "\<exists>k\<le>length (currentResults s).
           trimCurrentResults s = (Returns (), s\<lparr> currentResults := drop k (currentResults s) \<rparr>)
           \<and> totalLength (drop k (currentResults s)) \<le> maxCharacters s
           \<and> (0 < k \<longrightarrow> maxCharacters s < totalLength (drop (k - 1) (currentResults s)))"
  unfolding trimCurrentResults_def
  using assms by (intro trimLoop_bound) (simp_all add: totalLength_def)

lemma three_updates:
  "runLedger argLimit [Update trimEvent1, Update trimEvent2, Update trimEvent3] trimLedger
     = trimLedger\<lparr> currentResults := [finalResult (ascii ''abcde''), finalResult (ascii ''fghij''),
                      finalResult (ascii ''klmno'')], indexFinished := 2 \<rparr>"
  by (simp add: scenario_defs trimLedger_def trimEvent1_def trimEvent2_def trimEvent3_def)

lemma not_prefix_replicate: "0 < n \<Longrightarrow> a \<noteq> b \<Longrightarrow> \<not> prefix (replicate n a) (replicate n b)"
  by (cases n) auto

lemma two_long_updates:
  "runLedger argLimit [Update longEvent1, Update longEvent2] newSpeechLog
     = newSpeechLog\<lparr> currentResults := [finalResult (replicate 200 0x61),
                        finalResult (replicate 200 0x62)], indexFinished := 1 \<rparr>"
  by (simp add: update_def extractUpdate_def extractLoop.simps newSpeechLog_def finalResult_def
      at_index_def topTranscript_def pushUpdate_def getLastItem_def startsWith_def
      longEvent1_def longEvent2_def not_prefix_replicate isNonEmptyTranscript_def)

text \<open>
  Claim C1, evaluated on the code.  \<open>update\<close> appends final results through \<open>_pushUpdate\<close>,
  which never calls \<open>_trimCurrentResults\<close> (no function of the source does).  With a budget
  of ten characters and the final results \<open>abcde\<close>, \<open>fghij\<close>, \<open>klmno\<close>, \<open>currentResults\<close>
  still holds all three after the third update, fifteen characters in all; with the default
  budget of three hundred, two final results of two hundred characters each stay both.
\<close>

theorem update_never_trims:
  "currentResults (runLedger argLimit [Update trimEvent1, Update trimEvent2, Update trimEvent3] trimLedger)
     = [finalResult (ascii ''abcde''), finalResult (ascii ''fghij''), finalResult (ascii ''klmno'')]
   \<and> totalLength (currentResults
        (runLedger argLimit [Update trimEvent1, Update trimEvent2, Update trimEvent3] trimLedger)) = 15
   \<and> maxCharacters (runLedger argLimit [Update trimEvent1, Update trimEvent2, Update trimEvent3] trimLedger) = 10
   \<and> totalLength (currentResults (runLedger argLimit [Update longEvent1, Update longEvent2] newSpeechLog)) = 400
   \<and> maxCharacters (runLedger argLimit [Update longEvent1, Update longEvent2] newSpeechLog) = 300"
  unfolding three_updates two_long_updates
  by (simp add: totalLength_def transcriptLength_def topTranscript_def finalResult_def ascii_def
      trimLedger_def newSpeechLog_def)

text \<open>Called on the state the three updates leave, the trimming would drop \<open>abcde\<close>.\<close>

lemma trim_after_three_updates:
  "trimCurrentResults (runLedger argLimit [Update trimEvent1, Update trimEvent2, Update trimEvent3] trimLedger)
     = (Returns (), trimLedger\<lparr> currentResults := [finalResult (ascii ''fghij''),
                      finalResult (ascii ''klmno'')], indexFinished := 2 \<rparr>)"
  unfolding three_updates
  by (simp add: trimCurrentResults_def trimLedger_def newSpeechLog_def at_index_def topTranscript_def
        finalResult_def ascii_def numeral_3_eq_3 lengthOf_def)


section \<open>The disabled recognizer\<close>

lemma start_effects:
  "snd (snd (SpeechRecognizer_start argLimit a)) = []
   \<or> snd (snd (SpeechRecognizer_start argLimit a)) = [RecognizerStart]"
  by (simp add: SpeechRecognizer_start_def split: prod.splits outcome.splits)

lemma start_frame:
  "recognizer (fst (snd (SpeechRecognizer_start argLimit a))) = recognizer a
   \<and> available (fst (snd (SpeechRecognizer_start argLimit a))) = available a
   \<and> isSpeechAvailable (fst (snd (SpeechRecognizer_start argLimit a))) = isSpeechAvailable a"
  by (simp add: SpeechRecognizer_start_def split: prod.splits outcome.splits)

lemma start_disabled:
  "\<not> available a \<Longrightarrow> SpeechRecognizer_start argLimit a = (Returns False, a, [])"
  by (simp add: SpeechRecognizer_start_def)

lemma onend_disabled:
  "\<not> available a \<Longrightarrow> snd (onend argLimit a) = [] \<and> \<not> available (fst (onend argLimit a))
     \<and> recognizer (fst (onend argLimit a)) = recognizer a"
  by (simp add: onend_def Let_def split: prod.splits outcome.splits)

lemma onend_frame:
  "recognizer (fst (onend argLimit a)) = recognizer a
   \<and> isSpeechAvailable (fst (onend argLimit a)) = isSpeechAvailable a
   \<and> filter isCritical (snd (onend argLimit a)) = []"
proof (cases "init argLimit (speechLog a)")
  case (Pair out lg)
  show ?thesis
  proof (cases out)
    case (Throws e)
    with Pair show ?thesis by (simp add: onend_def)
  next
    case (Returns u)
    let ?a1 = "a\<lparr> speechLog := lg \<rparr>"
    from start_effects[of argLimit ?a1]
    have "filter isCritical (snd (snd (SpeechRecognizer_start argLimit ?a1))) = []" by auto
    with Pair Returns start_frame[of argLimit ?a1] show ?thesis
      by (simp add: onend_def Let_def)
  qed
qed

lemma onresult_frame:
  "recognizer (fst (onresult ev a)) = recognizer a
   \<and> available (fst (onresult ev a)) = available a
   \<and> isSpeechAvailable (fst (onresult ev a)) = isSpeechAvailable a
   \<and> filter isCritical (snd (onresult ev a)) = []
   \<and> RecognizerStart \<notin> set (snd (onresult ev a))"
  by (auto simp: onresult_def split: prod.splits outcome.splits bool.splits)

lemma step_disabled:
  assumes "\<not> available a" "recognizer a \<noteq> RUndefined"
  shows "\<not> available (fst (step argLimit act a))
         \<and> recognizer (fst (step argLimit act a)) \<noteq> RUndefined
         \<and> RecognizerStart \<notin> set (snd (step argLimit act a))"
proof (cases act)
  case (CallInit found)
  with assms show ?thesis by (simp add: SpeechRecognizer_init_def)
next
  case CallStart
  with assms show ?thesis by (simp add: start_disabled)
next
  case SpeechStart
  with assms show ?thesis by (simp add: onspeechstart_def)
next
  case SessionEnd
  with assms onend_disabled[OF assms(1), of argLimit] show ?thesis by simp
next
  case (ErrorEvent err msg)
  with assms show ?thesis by (simp add: onerror_def)
next
  case (ResultEvent ev)
  with assms onresult_frame[of ev a] show ?thesis by simp
next
  case OtherEvent
  with assms show ?thesis by simp
qed

lemma run_disabled:
  "\<not> available a \<Longrightarrow> recognizer a \<noteq> RUndefined \<Longrightarrow>
   \<not> available (fst (run argLimit acts a)) \<and> recognizer (fst (run argLimit acts a)) \<noteq> RUndefined
   \<and> RecognizerStart \<notin> set (snd (run argLimit acts a))"
proof (induction acts arbitrary: a)
  case Nil
  then show ?case by simp
next
  case (Cons act acts)
  obtain a1 es1 where s: "step argLimit act a = (a1, es1)" by (cases "step argLimit act a") auto
  with step_disabled[OF Cons.prems, of argLimit act]
  have a1: "\<not> available a1" "recognizer a1 \<noteq> RUndefined" and es1: "RecognizerStart \<notin> set es1"
    by simp_all
  from Cons.IH[OF a1] s es1 show ?case by (auto split: prod.splits)
qed

text \<open>The \<open>onCritical\<close> calls of one step, on a recognizer that has its recognition object.\<close>

lemma step_criticals:
  assumes "recognizer a = RObject"
  shows "recognizer (fst (step argLimit act a)) = RObject
         \<and> filter isCritical (snd (step argLimit act a)) @ criticalCalls
              (isSpeechAvailable (fst (step argLimit act a))) acts
            = criticalCalls (isSpeechAvailable a) (act # acts)"
proof (cases act)
  case (CallInit found)
  with assms show ?thesis by (simp add: SpeechRecognizer_init_def)
next
  case CallStart
  from start_effects[of argLimit a]
  have "filter isCritical (snd (snd (SpeechRecognizer_start argLimit a))) = []" by auto
  with CallStart assms start_frame[of argLimit a] show ?thesis by simp
next
  case SpeechStart
  with assms show ?thesis by (simp add: onspeechstart_def)
next
  case SessionEnd
  with assms onend_frame[of argLimit a] show ?thesis by simp
next
  case (ErrorEvent err msg)
  with assms show ?thesis by (simp add: onerror_def)
next
  case (ResultEvent ev)
  with assms onresult_frame[of ev a] show ?thesis by simp
next
  case OtherEvent
  with assms show ?thesis by simp
qed

lemma run_criticals:
  "recognizer a = RObject \<Longrightarrow>
   filter isCritical (snd (run argLimit acts a)) = criticalCalls (isSpeechAvailable a) acts"
proof (induction acts arbitrary: a)
  case Nil
  show ?case by simp
next
  case (Cons act acts)
  obtain a1 es1 where s: "step argLimit act a = (a1, es1)" by (cases "step argLimit act a") auto
  from step_criticals[OF Cons.prems, of argLimit act acts] s
  have a1: "recognizer a1 = RObject"
    and c: "filter isCritical es1 @ criticalCalls (isSpeechAvailable a1) acts
            = criticalCalls (isSpeechAvailable a) (act # acts)" by simp_all
  from Cons.IH[OF a1] have "filter isCritical (snd (run argLimit acts a1))
      = criticalCalls (isSpeechAvailable a1) acts" .
  with s c show ?case by (auto split: prod.splits)
qed

lemma step_no_object:
  assumes "recognizer a = RNull"
  shows "recognizer (fst (step argLimit act a)) = RNull \<and> snd (step argLimit act a) = []"
  using assms
  by (cases act) (simp_all add: SpeechRecognizer_init_def SpeechRecognizer_start_def)

lemma run_no_object:
  "recognizer a = RNull \<Longrightarrow> snd (run argLimit acts a) = []"
proof (induction acts arbitrary: a)
  case Nil
  show ?case by simp
next
  case (Cons act acts)
  obtain a1 es1 where s: "step argLimit act a = (a1, es1)" by (cases "step argLimit act a") auto
  with step_no_object[OF Cons.prems, of argLimit act] have "recognizer a1 = RNull" "es1 = []"
    by simp_all
  with Cons.IH[of a1] s show ?case by (simp split: prod.splits)
qed

text \<open>
  Claim C2 as stated fails, in two ways.  When no recognizer implementation is found,
  \<open>init\<close> disables the recognizer and returns \<open>false\<close>, but \<open>onCritical\<close> is not invoked,
  then or later.  And when two error events arrive before any \<open>speechstart\<close>, \<open>onCritical\<close>
  is invoked twice: the handler tests \<open>isSpeechAvailable\<close> and the error code, not
  \<open>available\<close>.
\<close>

theorem no_recognizer_counterexample:
  "SpeechRecognizer_init False freshRecognizer
     = (False, freshRecognizer\<lparr> recognizer := RNull, available := False \<rparr>, [])
   \<and> filter isCritical (snd (run 65535 [CallInit False, CallStart] freshRecognizer)) = []
   \<and> available (fst (run 65535 [CallInit False, CallStart] freshRecognizer)) = False
   \<and> filter isCritical
        (snd (run 65535 [CallInit True, CallStart, networkError, networkError] freshRecognizer))
      = [Critical (ascii ''network'') (ascii ''offline''),
         Critical (ascii ''network'') (ascii ''offline'')]"
  by (simp add: SpeechRecognizer_init_def SpeechRecognizer_start_def freshRecognizer_def
      newSpeechRecognizer_def networkError_def onerror_def init_def newSpeechLog_def ascii_def)

text \<open>
  Claim C2, amended.  When no implementation is found, the first \<open>init\<close> sets \<open>available\<close> to
  false and returns \<open>false\<close>, with no call to the owner, and no \<open>onCritical\<close> call follows
  whatever is called next.  An error event before any \<open>speechstart\<close> whose code is neither
  \<open>no-speech\<close> nor \<open>aborted\<close> sets \<open>available\<close> to false and invokes \<open>onCritical\<close> once; along
  any sequence of calls and events \<open>onCritical\<close> is invoked once for each such error event,
  so once more for each further one, and for nothing else.  From a recognizer that is not
  available (and past its \<open>init\<close>), whatever is called or fired next, \<open>available\<close> stays
  false, \<open>recognizer.start()\<close> is never called again, and \<open>start()\<close> returns \<open>false\<close>.
\<close>

theorem fatal_disables:
  "(recognizer a = RUndefined \<longrightarrow>
      SpeechRecognizer_init False a = (False, a\<lparr> recognizer := RNull, available := False \<rparr>, []))
   \<and> (recognizer a = RNull \<longrightarrow> snd (run argLimit acts a) = [])
   \<and> (recognizer a = RObject \<and> \<not> isSpeechAvailable a
        \<and> err \<noteq> ascii ''no-speech'' \<and> err \<noteq> ascii ''aborted'' \<longrightarrow>
      step argLimit (ErrorEvent err msg) a = (a\<lparr> available := False \<rparr>, [Critical err msg]))
   \<and> (recognizer a = RObject \<longrightarrow>
      filter isCritical (snd (run argLimit acts a)) = criticalCalls (isSpeechAvailable a) acts)
   \<and> (\<not> available a \<and> recognizer a \<noteq> RUndefined \<longrightarrow>
      \<not> available (fst (run argLimit acts a))
      \<and> RecognizerStart \<notin> set (snd (run argLimit acts a))
      \<and> fst (SpeechRecognizer_start argLimit (fst (run argLimit acts a))) = Returns False)"
proof -
  have "fst (SpeechRecognizer_start argLimit b) = Returns False" if "\<not> available b" for b
    using that by (simp add: start_disabled)
  then show ?thesis
    using run_disabled[of a argLimit acts] run_criticals[of a argLimit acts]
      run_no_object[of a argLimit acts]
    by (simp add: SpeechRecognizer_init_def onerror_def)
qed

lemma listening_reached:
  "run argLimit [CallInit True, CallStart] freshRecognizer = (listeningRecognizer, [RecognizerStart])"
  by (simp add: listeningRecognizer_def freshRecognizer_def newSpeechRecognizer_def
      SpeechRecognizer_init_def SpeechRecognizer_start_def init_def newSpeechLog_def)

text \<open>The scenario of the specification: one \<open>onCritical\<close> call, no restart at the end of the
  session, and \<open>start\<close> refused.\<close>

lemma fatal_scenario:
  "run argLimit [CallInit True, CallStart, networkError, SessionEnd, CallStart] freshRecognizer
     = (freshRecognizer\<lparr> recognizer := RObject, available := False \<rparr>,
        [RecognizerStart, Critical (ascii ''network'') (ascii ''offline'')])"
  by (simp add: freshRecognizer_def newSpeechRecognizer_def networkError_def
      SpeechRecognizer_init_def SpeechRecognizer_start_def init_def newSpeechLog_def
      onerror_def onend_def ascii_def)

theorem fatal_disables_witness:
  "recognizer freshRecognizer = RUndefined
   \<and> SpeechRecognizer_init False freshRecognizer
       = (False, freshRecognizer\<lparr> recognizer := RNull, available := False \<rparr>, [])
   \<and> recognizer (freshRecognizer\<lparr> recognizer := RNull, available := False \<rparr>) = RNull
   \<and> snd (run 65535 [CallStart, SessionEnd]
         (freshRecognizer\<lparr> recognizer := RNull, available := False \<rparr>)) = []
   \<and> recognizer listeningRecognizer = RObject \<and> \<not> isSpeechAvailable listeningRecognizer
   \<and> ascii ''network'' \<noteq> ascii ''no-speech'' \<and> ascii ''network'' \<noteq> ascii ''aborted''
   \<and> step 65535 networkError listeningRecognizer
       = (listeningRecognizer\<lparr> available := False \<rparr>,
          [Critical (ascii ''network'') (ascii ''offline'')])
   \<and> filter isCritical (snd (run 65535 [networkError, SessionEnd, CallStart] listeningRecognizer))
       = [Critical (ascii ''network'') (ascii ''offline'')]
   \<and> filter isCritical (snd (run 65535 [networkError, SpeechStart, networkError, networkError]
         listeningRecognizer))
       = [Critical (ascii ''network'') (ascii ''offline'')]
   \<and> \<not> available (listeningRecognizer\<lparr> available := False \<rparr>)
   \<and> recognizer (listeningRecognizer\<lparr> available := False \<rparr>) \<noteq> RUndefined
   \<and> \<not> available (fst (run 65535 [SessionEnd, CallStart] (listeningRecognizer\<lparr> available := False \<rparr>)))
   \<and> RecognizerStart \<notin> set (snd (run 65535 [SessionEnd, CallStart]
         (listeningRecognizer\<lparr> available := False \<rparr>)))
   \<and> fst (SpeechRecognizer_start 65535
         (fst (run 65535 [SessionEnd, CallStart] (listeningRecognizer\<lparr> available := False \<rparr>))))
       = Returns False"
proof -
  let ?null = "freshRecognizer\<lparr> recognizer := RNull, available := False \<rparr>"
  let ?off = "listeningRecognizer\<lparr> available := False \<rparr>"
  have a: "recognizer freshRecognizer = RUndefined"
    by (simp add: freshRecognizer_def newSpeechRecognizer_def)
  have n: "recognizer ?null = RNull"
    by simp
  have b: "recognizer listeningRecognizer = RObject" "\<not> isSpeechAvailable listeningRecognizer"
    by (simp_all add: listeningRecognizer_def freshRecognizer_def newSpeechRecognizer_def)
  have c: "ascii ''network'' \<noteq> ascii ''no-speech''" "ascii ''network'' \<noteq> ascii ''aborted''"
    by (simp_all add: ascii_def)
  have d: "\<not> available ?off" "recognizer ?off \<noteq> RUndefined"
    using b by simp_all
  have e1: "criticalCalls False [networkError, SessionEnd, CallStart]
      = [Critical (ascii ''network'') (ascii ''offline'')]"
    "criticalCalls False [networkError, SpeechStart, networkError, networkError]
      = [Critical (ascii ''network'') (ascii ''offline'')]"
    using c by (simp_all add: networkError_def)
  have 1: "SpeechRecognizer_init False freshRecognizer = (False, ?null, [])"
    using fatal_disables[where a = freshRecognizer] a by blast
  have 2: "snd (run 65535 [CallStart, SessionEnd] ?null) = []"
    using fatal_disables[where a = ?null and argLimit = 65535 and acts = "[CallStart, SessionEnd]"] n
    by blast
  have 3: "step 65535 networkError listeningRecognizer
       = (?off, [Critical (ascii ''network'') (ascii ''offline'')])"
    using fatal_disables[where a = listeningRecognizer and err = "ascii ''network''"
         and msg = "ascii ''offline''" and argLimit = 65535] b c
    unfolding networkError_def by blast
  have 4: "filter isCritical (snd (run 65535 [networkError, SessionEnd, CallStart] listeningRecognizer))
       = [Critical (ascii ''network'') (ascii ''offline'')]"
    using fatal_disables[where a = listeningRecognizer and argLimit = 65535
         and acts = "[networkError, SessionEnd, CallStart]"] b e1(1)
    by simp
  have 5: "filter isCritical (snd (run 65535 [networkError, SpeechStart, networkError, networkError]
         listeningRecognizer))
       = [Critical (ascii ''network'') (ascii ''offline'')]"
    using fatal_disables[where a = listeningRecognizer and argLimit = 65535
         and acts = "[networkError, SpeechStart, networkError, networkError]"] b e1(2)
    by simp
  have 6: "\<not> available (fst (run 65535 [SessionEnd, CallStart] ?off))
     \<and> RecognizerStart \<notin> set (snd (run 65535 [SessionEnd, CallStart] ?off))
     \<and> fst (SpeechRecognizer_start 65535 (fst (run 65535 [SessionEnd, CallStart] ?off)))
         = Returns False"
    using fatal_disables[where a = ?off and argLimit = 65535 and acts = "[SessionEnd, CallStart]"] d
    by blast
  from a 1 n 2 b c 3 4 5 d 6 show ?thesis by blast
qed


end
